theory Spec2Isabelle
  imports Main "HOL-Library.Word"
begin

unbundle bit_operations_syntax

section \<open>The on-disk filesystem of fs.hpp and fs.cpp\<close>

text \<open>
  The model follows the C++ source function by function. Blocks of the device are typed
  by the record the code keeps in them (\<open>HeaderBlock\<close>, \<open>BitmapBlock\<close>, \<open>INodeBlock\<close>);
  blocks of the data region are raw bytes, read as \<open>DataBlock\<close> or, through
  little-endian 32-bit words, as \<open>PointerBlock\<close>. Every \<open>assert\<close> of the source
  (which logs and calls \<open>exit(-1)\<close>) and every access outside a buffer is a fault
  value; the state at the fault is kept. Unsigned 32-bit fields are natural numbers with
  the truncation written out where a wider value is stored.
\<close>

subsection \<open>Constants of disk.h\<close>

definition BLOCK_SIZE :: nat where
  \<comment> \<open>Modelled from the spec: the macro BLOCK_SIZE of disk.h, which is not among the
      sources; the spec's scenarios assume BLOCK_SIZE = 4096.\<close>
  "BLOCK_SIZE = 4096"

definition ENOSPC :: nat where
  "ENOSPC = 28"

definition ENOENT :: nat where
  "ENOENT = 2"

subsection \<open>Block types\<close>

datatype INodeType = FILE | DIRECTORY

record INode =
  type :: INodeType
  filesize :: nat
  atime :: nat
  mtime :: nat
  ctime :: nat
  direct_pointer :: nat
  indirect_pointer :: nat
  iindirect_pointer :: nat

definition INODE_IN_BLOCK :: nat where
  "INODE_IN_BLOCK = BLOCK_SIZE div 32"

definition POINTER_PER_BLOCK :: nat where
  "POINTER_PER_BLOCK = BLOCK_SIZE div 4"

record HeaderBlock =
  MAGIC_NUMBER :: nat
  inode_num_tot :: nat
  inode_num_free :: nat
  inode_bitmap_offset :: nat
  inode_block_offset :: nat
  data_block_num_tot :: nat
  data_block_num_free :: nat
  data_block_bitmap_offset :: nat
  data_block_offset :: nat

definition DIVIDE_CEIL :: "nat \<Rightarrow> nat \<Rightarrow> nat" where
  "DIVIDE_CEIL x y = (x + y - 1) div y"

definition HeaderBlock_new :: "nat \<Rightarrow> HeaderBlock" where
  \<comment> \<open>The constructor \<open>HeaderBlock()\<close>; its argument is the macro BLOCK_NUM of disk.h.\<close>
  "HeaderBlock_new block_num =
    (let avail_block_num = block_num - 1;
         inode_blocks = avail_block_num div INODE_IN_BLOCK;
         inode_num = inode_blocks * INODE_IN_BLOCK;
         inode_bitmap_blocks = DIVIDE_CEIL inode_num (BLOCK_SIZE * 8);
         avail_block_num = avail_block_num - (inode_blocks + inode_bitmap_blocks);
         data_block_bitmap_blocks = DIVIDE_CEIL avail_block_num (BLOCK_SIZE * 8)
     in \<lparr> MAGIC_NUMBER = 0x19260817,
          inode_num_tot = inode_num,
          inode_num_free = inode_num,
          inode_bitmap_offset = 1,
          inode_block_offset = 1 + inode_bitmap_blocks + data_block_bitmap_blocks,
          data_block_num_tot = avail_block_num - data_block_bitmap_blocks,
          data_block_num_free = avail_block_num - data_block_bitmap_blocks,
          data_block_bitmap_offset = 1 + inode_bitmap_blocks,
          data_block_offset = 1 + inode_bitmap_blocks + data_block_bitmap_blocks + inode_blocks \<rparr>)"

type_synonym BitmapBlock = "nat \<Rightarrow> 64 word"
type_synonym bytes = "nat \<Rightarrow> 8 word"

datatype block =
    Header HeaderBlock
  | Bitmap BitmapBlock
  | INodes "nat \<Rightarrow> INode"
  | Raw bytes

subsection \<open>The machine: device, the two static hints of class Disk, clock, write trace\<close>

datatype fault =
    AssertionFail    \<comment> \<open>an \<open>assert\<close> of the source failed: the process exits\<close>
  | WrongBlockType   \<comment> \<open>a block is loaded as a record type other than the one stored in it\<close>
  | OutOfBounds      \<comment> \<open>a copy runs past the end of a block buffer or of the caller's buffer\<close>
  | StackExhausted   \<comment> \<open>the recursion of resize did not come back\<close>

record fs =
  BLOCK_NUM :: nat
  disk :: "nat \<Rightarrow> block"
  data_bitmap_min_pos :: nat
  inode_bitmap_min_pos :: nat
  clock :: nat
  writes :: "(nat \<times> block) list"

type_synonym 'a fsm = "fs \<Rightarrow> (fault + 'a) \<times> fs"

definition returnM :: "'a \<Rightarrow> 'a fsm" where
  "returnM x = (\<lambda>s. (Inr x, s))"

definition failM :: "fault \<Rightarrow> 'a fsm" where
  "failM e = (\<lambda>s. (Inl e, s))"

definition bindM :: "'a fsm \<Rightarrow> ('a \<Rightarrow> 'b fsm) \<Rightarrow> 'b fsm" where
  "bindM m f = (\<lambda>s. case m s of (Inl e, s') \<Rightarrow> (Inl e, s') | (Inr x, s') \<Rightarrow> f x s')"

definition assertM :: "bool \<Rightarrow> unit fsm" where
  "assertM b = (if b then returnM () else failM AssertionFail)"

definition getsM :: "(fs \<Rightarrow> 'a) \<Rightarrow> 'a fsm" where
  "getsM f = (\<lambda>s. (Inr (f s), s))"

definition modifyM :: "(fs \<Rightarrow> fs) \<Rightarrow> unit fsm" where
  "modifyM f = (\<lambda>s. (Inr (), f s))"

subsection \<open>BlockProxy\<close>

definition from_blockno :: "nat \<Rightarrow> block fsm" where
  \<comment> \<open>\<open>BlockProxy<T>::BlockProxy(int blockno)\<close>: the range assertion, then the read.\<close>
  "from_blockno blockno =
     bindM (getsM BLOCK_NUM) (\<lambda>n.
     bindM (assertM (blockno < n)) (\<lambda>_.
     getsM (\<lambda>s. disk s blockno)))"

definition commit :: "nat \<Rightarrow> block \<Rightarrow> unit fsm" where
  \<comment> \<open>\<open>BlockProxy<T>::commit\<close>: the buffer is written back to its block.\<close>
  "commit blockno b =
     modifyM (\<lambda>s. s\<lparr> disk := (disk s)(blockno := b), writes := writes s @ [(blockno, b)] \<rparr>)"

definition load_Header :: "nat \<Rightarrow> HeaderBlock fsm" where
  "load_Header blockno =
     bindM (from_blockno blockno) (\<lambda>b. case b of Header h \<Rightarrow> returnM h | _ \<Rightarrow> failM WrongBlockType)"

definition load_Bitmap :: "nat \<Rightarrow> BitmapBlock fsm" where
  "load_Bitmap blockno =
     bindM (from_blockno blockno) (\<lambda>b. case b of Bitmap w \<Rightarrow> returnM w | _ \<Rightarrow> failM WrongBlockType)"

definition load_INodes :: "nat \<Rightarrow> (nat \<Rightarrow> INode) fsm" where
  "load_INodes blockno =
     bindM (from_blockno blockno) (\<lambda>b. case b of INodes t \<Rightarrow> returnM t | _ \<Rightarrow> failM WrongBlockType)"

definition load_Raw :: "nat \<Rightarrow> bytes fsm" where
  "load_Raw blockno =
     bindM (from_blockno blockno) (\<lambda>b. case b of Raw d \<Rightarrow> returnM d | _ \<Rightarrow> failM WrongBlockType)"

definition get_header :: "HeaderBlock fsm" where
  "get_header = load_Header 0"

subsection \<open>BitmapBlock\<close>

definition ffsll :: "64 word \<Rightarrow> nat" where
  \<comment> \<open>\<open>__builtin_ffsll\<close>: one plus the index of the least significant set bit, 0 for 0.\<close>
  "ffsll w = (case find (bit w) [0..<64] of None \<Rightarrow> 0 | Some i \<Rightarrow> i + 1)"

definition BitmapBlock_set :: "BitmapBlock \<Rightarrow> nat \<Rightarrow> BitmapBlock" where
  "BitmapBlock_set data pos = data(pos div 64 := data (pos div 64) OR push_bit (pos mod 64) 1)"

definition BitmapBlock_clear :: "BitmapBlock \<Rightarrow> nat \<Rightarrow> BitmapBlock" where
  "BitmapBlock_clear data pos = data(pos div 64 := data (pos div 64) AND NOT (push_bit (pos mod 64) 1))"

definition BitmapBlock_get :: "BitmapBlock \<Rightarrow> nat \<Rightarrow> bool" where
  "BitmapBlock_get data pos = (data (pos div 64) AND push_bit (pos mod 64) 1 \<noteq> 0)"

function BitmapBlock_scan :: "BitmapBlock \<Rightarrow> nat \<Rightarrow> nat option" where
  "BitmapBlock_scan data blk =
     (if blk < BLOCK_SIZE div 8
      then (if NOT (data blk) \<noteq> 0 then Some (blk * 64 + (ffsll (NOT (data blk)) - 1))
            else BitmapBlock_scan data (blk + 1))
      else None)"
  by pat_completeness auto
termination
  by (relation "measure (\<lambda>(data, blk). BLOCK_SIZE div 8 - blk)") auto

definition BitmapBlock_get_first_zero :: "BitmapBlock \<Rightarrow> nat \<Rightarrow> nat option" where
  \<comment> \<open>The scan starts at the 64-bit word that holds \<open>pos\<close>; \<open>None\<close> is the source's -1.\<close>
  "BitmapBlock_get_first_zero data pos = BitmapBlock_scan data (pos div 64)"

subsection \<open>BitMap\<close>

definition siz :: nat where
  "siz = BLOCK_SIZE * 8"

record BitMap =
  minpos :: nat
  start :: nat
  end' :: nat

definition BitMap_set :: "BitMap \<Rightarrow> nat \<Rightarrow> unit fsm" where
  "BitMap_set bm pos =
     bindM (load_Bitmap (pos div siz + start bm)) (\<lambda>blk.
     commit (pos div siz + start bm) (Bitmap (BitmapBlock_set blk (pos mod siz))))"

definition BitMap_clear :: "BitMap \<Rightarrow> nat \<Rightarrow> unit fsm" where
  "BitMap_clear bm pos =
     bindM (load_Bitmap (pos div siz + start bm)) (\<lambda>blk.
     commit (pos div siz + start bm) (Bitmap (BitmapBlock_clear blk (pos mod siz))))"

definition BitMap_get :: "BitMap \<Rightarrow> nat \<Rightarrow> bool fsm" where
  "BitMap_get bm pos =
     bindM (load_Bitmap (pos div siz + start bm)) (\<lambda>blk.
     returnM (BitmapBlock_get blk (pos mod siz)))"

function BitMap_scan :: "nat \<Rightarrow> nat \<Rightarrow> nat \<Rightarrow> nat \<Rightarrow> nat option fsm" where
  "BitMap_scan e pos blockno off s =
     (if pos < e
      then (case load_Bitmap pos s of
              (Inl err, s') \<Rightarrow> (Inl err, s')
            | (Inr blk, s') \<Rightarrow>
                (case BitmapBlock_get_first_zero blk off of
                   Some r \<Rightarrow> (Inr (Some (r + blockno * siz)), s')
                 | None \<Rightarrow> BitMap_scan e (pos + 1) (blockno + 1) 0 s'))
      else (Inr None, s))"
  by pat_completeness auto
termination
  by (relation "measure (\<lambda>(e, pos, blockno, off, s). e - pos)") auto

definition BitMap_get_first_zero :: "BitMap \<Rightarrow> nat option fsm" where
  "BitMap_get_first_zero bm =
     BitMap_scan (end' bm) (start bm + minpos bm div siz) (minpos bm div siz) (minpos bm mod siz)"

subsection \<open>Disk: the allocator\<close>

definition alloc_inode :: "nat option fsm" where
  "alloc_inode =
     bindM get_header (\<lambda>header.
     if inode_num_free header = 0 then returnM None
     else
       bindM (getsM inode_bitmap_min_pos) (\<lambda>hint.
       let bitmap = \<lparr> minpos = hint, start = inode_bitmap_offset header,
                      end' = data_block_bitmap_offset header \<rparr> in
       bindM (BitMap_get_first_zero bitmap) (\<lambda>found.
       case found of
         None \<Rightarrow> failM AssertionFail
       | Some ret \<Rightarrow>
           bindM (BitMap_set bitmap ret) (\<lambda>_.
           bindM (commit 0 (Header (header\<lparr> inode_num_free := inode_num_free header - 1 \<rparr>))) (\<lambda>_.
           bindM (modifyM (\<lambda>s. s\<lparr> inode_bitmap_min_pos := max (inode_bitmap_min_pos s) ret \<rparr>)) (\<lambda>_.
           returnM (Some ret)))))))"

definition free_inode :: "nat \<Rightarrow> unit fsm" where
  "free_inode inodeno =
     bindM get_header (\<lambda>header.
     let bitmap = \<lparr> minpos = 0, start = inode_bitmap_offset header,
                    end' = data_block_bitmap_offset header \<rparr> in
     bindM (BitMap_get bitmap inodeno) (\<lambda>allocated.
     bindM (assertM allocated) (\<lambda>_.
     bindM (BitMap_clear bitmap inodeno) (\<lambda>_.
     bindM (commit 0 (Header (header\<lparr> inode_num_free := (inode_num_free header + 1) mod 2 ^ 32 \<rparr>))) (\<lambda>_.
     modifyM (\<lambda>s. s\<lparr> inode_bitmap_min_pos := min (inode_bitmap_min_pos s) inodeno \<rparr>))))))"

definition alloc_data :: "nat option fsm" where
  "alloc_data =
     bindM get_header (\<lambda>header.
     if data_block_num_free header = 0 then returnM None
     else
       bindM (getsM data_bitmap_min_pos) (\<lambda>hint.
       let bitmap = \<lparr> minpos = hint, start = data_block_bitmap_offset header,
                      end' = inode_block_offset header \<rparr> in
       bindM (BitMap_get_first_zero bitmap) (\<lambda>found.
       case found of
         None \<Rightarrow> failM AssertionFail
       | Some ret \<Rightarrow>
           bindM (modifyM (\<lambda>s. s\<lparr> data_bitmap_min_pos := max (data_bitmap_min_pos s) ret \<rparr>)) (\<lambda>_.
           bindM (BitMap_set bitmap ret) (\<lambda>_.
           bindM (commit 0 (Header (header\<lparr> data_block_num_free := data_block_num_free header - 1 \<rparr>))) (\<lambda>_.
           returnM (Some (ret + data_block_offset header))))))))"

definition free_data :: "nat \<Rightarrow> unit fsm" where
  "free_data datano =
     bindM get_header (\<lambda>header.
     bindM (assertM (data_block_offset header \<le> datano)) (\<lambda>_.
     let pos = datano - data_block_offset header;
         bitmap = \<lparr> minpos = 0, start = data_block_bitmap_offset header,
                    end' = inode_block_offset header \<rparr> in
     bindM (BitMap_get bitmap pos) (\<lambda>allocated.
     bindM (assertM allocated) (\<lambda>_.
     bindM (BitMap_clear bitmap pos) (\<lambda>_.
     bindM (commit 0 (Header (header\<lparr> data_block_num_free := (data_block_num_free header + 1) mod 2 ^ 32 \<rparr>))) (\<lambda>_.
     modifyM (\<lambda>s. s\<lparr> data_bitmap_min_pos := min (data_bitmap_min_pos s) pos \<rparr>)))))))"

subsection \<open>INodeProxy\<close>

definition INodeProxy_new :: "nat \<Rightarrow> INode fsm" where
  \<comment> \<open>The constructor: the record is copied out of its inode block.\<close>
  "INodeProxy_new inodeno =
     bindM get_header (\<lambda>header.
     bindM (load_INodes (inodeno div INODE_IN_BLOCK + inode_block_offset header)) (\<lambda>blk.
     returnM (blk (inodeno mod INODE_IN_BLOCK))))"

definition INodeProxy_commit :: "nat \<Rightarrow> INode \<Rightarrow> unit fsm" where
  \<comment> \<open>\<open>INodeProxy::apply\<close>: the inode block is loaded again and written with the record.\<close>
  "INodeProxy_commit inodeno inode =
     bindM get_header (\<lambda>header.
     bindM (load_INodes (inodeno div INODE_IN_BLOCK + inode_block_offset header)) (\<lambda>blk.
     commit (inodeno div INODE_IN_BLOCK + inode_block_offset header)
            (INodes (blk(inodeno mod INODE_IN_BLOCK := inode)))))"

subsection \<open>PointerBlock: a data-region block read as 32-bit little-endian words\<close>

definition pointers :: "bytes \<Rightarrow> nat \<Rightarrow> nat" where
  "pointers b i = unat (b (4 * i)) + 256 * unat (b (4 * i + 1))
                + 65536 * unat (b (4 * i + 2)) + 16777216 * unat (b (4 * i + 3))"

definition set_pointer :: "bytes \<Rightarrow> nat \<Rightarrow> nat \<Rightarrow> bytes" where
  "set_pointer b i v =
     b(4 * i := of_nat v, 4 * i + 1 := of_nat (v div 256),
       4 * i + 2 := of_nat (v div 65536), 4 * i + 3 := of_nat (v div 16777216))"

definition zero_block :: bytes where
  \<comment> \<open>\<open>memset(&*block, 0, BLOCK_SIZE)\<close>\<close>
  "zero_block = (\<lambda>_. 0)"

subsection \<open>DataProxy: the extent engine\<close>

function count_nonzero :: "bytes \<Rightarrow> nat \<Rightarrow> nat" where
  \<comment> \<open>\<open>for (auto &&pointer : pointers->pointers) { if (pointer == 0) break; now_block++; }\<close>\<close>
  "count_nonzero p i =
     (if i < POINTER_PER_BLOCK
      then (if pointers p i = 0 then 0 else 1 + count_nonzero p (i + 1))
      else 0)"
  by pat_completeness auto
termination
  by (relation "measure (\<lambda>(p, i). POINTER_PER_BLOCK - i)") auto

function get_block_size_iind :: "bytes \<Rightarrow> nat \<Rightarrow> nat \<Rightarrow> nat fsm" where
  \<comment> \<open>The loop over the double-indirect block, from slot \<open>now\<close> with \<open>now_block\<close> counted so far.\<close>
  "get_block_size_iind outer now now_block s =
     (if now < POINTER_PER_BLOCK
      then (if pointers outer now = 0
            then (if now \<noteq> 0
                  then bindM (load_Raw (pointers outer (now - 1))) (\<lambda>inner.
                         returnM (now_block - POINTER_PER_BLOCK + count_nonzero inner 0)) s
                  else (Inr now_block, s))
            else get_block_size_iind outer (now + 1) (now_block + POINTER_PER_BLOCK) s)
      else (Inr now_block, s))"
  by pat_completeness auto
termination
  by (relation "measure (\<lambda>(outer, now, now_block, s). POINTER_PER_BLOCK - now)") auto

definition get_block_size :: "nat \<Rightarrow> nat fsm" where
  "get_block_size inodeno =
     bindM (INodeProxy_new inodeno) (\<lambda>inode.
     if direct_pointer inode = 0 then returnM 0
     else if indirect_pointer inode = 0 then returnM 1
     else
       bindM (load_Raw (indirect_pointer inode)) (\<lambda>ptrs.
       if count_nonzero ptrs 0 < POINTER_PER_BLOCK then returnM (1 + count_nonzero ptrs 0)
       else if iindirect_pointer inode = 0 then returnM (1 + POINTER_PER_BLOCK)
       else
         bindM (load_Raw (iindirect_pointer inode)) (\<lambda>outer.
         get_block_size_iind outer 0 (1 + POINTER_PER_BLOCK))))"

datatype step = Next INode | ROLLBACK INode

definition new_pointer_block :: "nat \<Rightarrow> unit fsm" where
  \<comment> \<open>\<open>auto b = Disk::from_blockno<PointerBlock>(data); memset(&*b, 0, BLOCK_SIZE); b.commit();\<close>\<close>
  "new_pointer_block data =
     bindM (load_Raw data) (\<lambda>_. commit data (Raw zero_block))"

definition grow_direct :: "INode \<Rightarrow> step fsm" where
  "grow_direct inode =
     bindM alloc_data (\<lambda>d. case d of
        None \<Rightarrow> returnM (ROLLBACK inode)
      | Some data \<Rightarrow> returnM (Next (inode\<lparr> direct_pointer := data \<rparr>)))"

definition grow_indirect :: "nat \<Rightarrow> INode \<Rightarrow> step fsm" where
  \<comment> \<open>The branch \<open>block_now < 1 + POINTER_PER_BLOCK\<close> of the grow loop; \<open>offset = block_now - 1\<close>.\<close>
  "grow_indirect offset inode0 =
     bindM (if offset = 0
            then bindM alloc_data (\<lambda>d. case d of
                   None \<Rightarrow> returnM None
                 | Some data \<Rightarrow>
                     bindM (new_pointer_block data) (\<lambda>_.
                     returnM (Some (inode0\<lparr> indirect_pointer := data \<rparr>, True))))
            else returnM (Some (inode0, False)))
     (\<lambda>r. case r of
        None \<Rightarrow> returnM (ROLLBACK inode0)
      | Some (inode, extend_ind) \<Rightarrow>
          bindM (load_Raw (indirect_pointer inode)) (\<lambda>ind_block.
          bindM alloc_data (\<lambda>d. case d of
             None \<Rightarrow>
               if extend_ind
               then bindM (free_data (indirect_pointer inode)) (\<lambda>_.
                      returnM (ROLLBACK (inode\<lparr> indirect_pointer := 0 \<rparr>)))
               else returnM (ROLLBACK inode)
           | Some data \<Rightarrow>
               bindM (commit (indirect_pointer inode) (Raw (set_pointer ind_block offset data))) (\<lambda>_.
               returnM (Next inode)))))"

definition grow_iindirect :: "nat \<Rightarrow> INode \<Rightarrow> step fsm" where
  \<comment> \<open>The last branch of the grow loop; \<open>offset0 = block_now - (1 + POINTER_PER_BLOCK)\<close>.
      A slot index past the pointer array is a fault.\<close>
  "grow_iindirect offset0 inode0 =
     (let id_ind = offset0 div POINTER_PER_BLOCK;
          id_offset = offset0 mod POINTER_PER_BLOCK in
      if POINTER_PER_BLOCK \<le> id_ind then failM OutOfBounds
      else
      bindM (if id_offset = 0
             then
               bindM (if id_ind = 0
                      then bindM alloc_data (\<lambda>d. case d of
                             None \<Rightarrow> returnM None
                           | Some data \<Rightarrow>
                               bindM (new_pointer_block data) (\<lambda>_.
                               returnM (Some (inode0\<lparr> iindirect_pointer := data \<rparr>, True))))
                      else returnM (Some (inode0, False)))
               (\<lambda>r. case r of
                  None \<Rightarrow> returnM (Inl inode0)
                | Some (inode, extend_iind) \<Rightarrow>
                    bindM (load_Raw (iindirect_pointer inode)) (\<lambda>iind_block.
                    bindM alloc_data (\<lambda>d. case d of
                       None \<Rightarrow>
                         if extend_iind
                         then bindM (free_data (iindirect_pointer inode)) (\<lambda>_.
                                returnM (Inl (inode\<lparr> iindirect_pointer := 0 \<rparr>)))
                         else returnM (Inl inode)
                     | Some data \<Rightarrow>
                         bindM (new_pointer_block data) (\<lambda>_.
                         bindM (commit (iindirect_pointer inode)
                                  (Raw (set_pointer iind_block id_ind data))) (\<lambda>_.
                         returnM (Inr (inode, True, extend_iind)))))))
             else returnM (Inr (inode0, False, False)))
      (\<lambda>r. case r of
         Inl inode \<Rightarrow> returnM (ROLLBACK inode)
       | Inr (inode, extend_ind, extend_iind) \<Rightarrow>
           bindM (load_Raw (iindirect_pointer inode)) (\<lambda>iind_block.
           bindM (load_Raw (pointers iind_block id_ind)) (\<lambda>ind_block.
           bindM alloc_data (\<lambda>d. case d of
              None \<Rightarrow>
                bindM (if extend_ind
                       then bindM (free_data (pointers iind_block id_ind)) (\<lambda>_.
                              returnM (set_pointer iind_block id_ind 0))
                       else returnM iind_block) (\<lambda>iind_block'.
                bindM (commit (iindirect_pointer inode) (Raw iind_block')) (\<lambda>_.
                if extend_iind
                then bindM (free_data (iindirect_pointer inode)) (\<lambda>_.
                       returnM (ROLLBACK (inode\<lparr> iindirect_pointer := 0 \<rparr>)))
                else returnM (ROLLBACK inode)))
            | Some data \<Rightarrow>
                bindM (commit (pointers iind_block id_ind)
                         (Raw (set_pointer ind_block id_offset data))) (\<lambda>_.
                returnM (Next inode)))))))"

definition shrink_direct :: "INode \<Rightarrow> step fsm" where
  "shrink_direct inode =
     bindM (free_data (direct_pointer inode)) (\<lambda>_.
     returnM (Next (inode\<lparr> direct_pointer := 0 \<rparr>)))"

definition shrink_indirect :: "nat \<Rightarrow> INode \<Rightarrow> step fsm" where
  \<comment> \<open>\<open>offset = block_to_shrink - 1\<close>\<close>
  "shrink_indirect offset inode =
     bindM (load_Raw (indirect_pointer inode)) (\<lambda>ind_block.
     bindM (free_data (pointers ind_block offset)) (\<lambda>_.
     bindM (commit (indirect_pointer inode) (Raw (set_pointer ind_block offset 0))) (\<lambda>_.
     if offset = 0
     then bindM (free_data (indirect_pointer inode)) (\<lambda>_.
            returnM (Next (inode\<lparr> indirect_pointer := 0 \<rparr>)))
     else returnM (Next inode))))"

definition shrink_iindirect :: "nat \<Rightarrow> INode \<Rightarrow> step fsm" where
  \<comment> \<open>\<open>offset0 = block_to_shrink - (1 + POINTER_PER_BLOCK)\<close>\<close>
  "shrink_iindirect offset0 inode =
     (let id_ind = offset0 div POINTER_PER_BLOCK;
          id_offset = offset0 mod POINTER_PER_BLOCK in
      if POINTER_PER_BLOCK \<le> id_ind then failM OutOfBounds
      else
      bindM (load_Raw (iindirect_pointer inode)) (\<lambda>iind_block.
      bindM (load_Raw (pointers iind_block id_ind)) (\<lambda>ind_block.
      bindM (free_data (pointers ind_block id_offset)) (\<lambda>_.
      bindM (commit (pointers iind_block id_ind) (Raw (set_pointer ind_block id_offset 0))) (\<lambda>_.
      if id_offset = 0
      then
        bindM (free_data (pointers iind_block id_ind)) (\<lambda>_.
        bindM (commit (iindirect_pointer inode) (Raw (set_pointer iind_block id_ind 0))) (\<lambda>_.
        if id_ind = 0
        then bindM (free_data (iindirect_pointer inode)) (\<lambda>_.
               returnM (Next (inode\<lparr> iindirect_pointer := 0 \<rparr>)))
        else returnM (Next inode)))
      else returnM (Next inode))))))"

definition grow_step :: "nat \<Rightarrow> INode \<Rightarrow> step fsm" where
  "grow_step block_now inode =
     (if block_now < 1 then grow_direct inode
      else if block_now < 1 + POINTER_PER_BLOCK then grow_indirect (block_now - 1) inode
      else grow_iindirect (block_now - (1 + POINTER_PER_BLOCK)) inode)"

definition shrink_step :: "nat \<Rightarrow> INode \<Rightarrow> step fsm" where
  \<comment> \<open>\<open>block_to_shrink = block_now - 1\<close>\<close>
  "shrink_step block_to_shrink inode =
     (if block_to_shrink < 1 then shrink_direct inode
      else if block_to_shrink < 1 + POINTER_PER_BLOCK then shrink_indirect (block_to_shrink - 1) inode
      else shrink_iindirect (block_to_shrink - (1 + POINTER_PER_BLOCK)) inode)"

function resize_loop :: "nat \<Rightarrow> nat \<Rightarrow> INode \<Rightarrow> step fsm" where
  \<comment> \<open>\<open>while (block_now != block_need)\<close>; the result says whether the loop ended or
      jumped to ROLLBACK, with the in-memory inode record at that point.\<close>
  "resize_loop block_need block_now inode s =
     (if block_now = block_need then (Inr (Next inode), s)
      else if block_now < block_need
      then (case grow_step block_now inode s of
              (Inr (Next inode'), s') \<Rightarrow> resize_loop block_need (block_now + 1) inode' s'
            | r \<Rightarrow> r)
      else (case shrink_step (block_now - 1) inode s of
              (Inr (Next inode'), s') \<Rightarrow> resize_loop block_need (block_now - 1) inode' s'
            | r \<Rightarrow> r))"
  by pat_completeness auto
termination
  by (relation "measure (\<lambda>(block_need, block_now, inode, s).
        if block_now < block_need then block_need - block_now else block_now - block_need)") auto

definition to_int :: "nat \<Rightarrow> int" where
  \<comment> \<open>Conversion of an unsigned value to the 32-bit \<open>int\<close> of the target.\<close>
  "to_int x = (if x mod 2 ^ 32 < 2 ^ 31 then int (x mod 2 ^ 32) else int (x mod 2 ^ 32) - 2 ^ 32)"

definition block_need_of :: "nat \<Rightarrow> nat" where
  \<comment> \<open>\<open>std::max<int>(0, (size + BLOCK_SIZE - 1) / BLOCK_SIZE)\<close> with \<open>size_t size\<close> of 64 bits\<close>
  "block_need_of sz = nat (max 0 (to_int (((sz + BLOCK_SIZE - 1) mod 2 ^ 64) div BLOCK_SIZE)))"

fun resize :: "nat \<Rightarrow> nat \<Rightarrow> nat \<Rightarrow> nat fsm" where
  \<comment> \<open>\<open>DataProxy::resize\<close>. The first argument bounds the depth of the recursion through
      ROLLBACK, which the source does not bound.\<close>
  "resize 0 inodeno sz = failM StackExhausted"
| "resize (Suc depth) inodeno sz =
     bindM (get_block_size inodeno) (\<lambda>block_now.
     bindM (INodeProxy_new inodeno) (\<lambda>inode0.
     bindM (getsM clock) (\<lambda>t.
     bindM (resize_loop (block_need_of sz) block_now (inode0\<lparr> ctime := t mod 2 ^ 32 \<rparr>)) (\<lambda>r.
     case r of
       Next inode \<Rightarrow>
         bindM (INodeProxy_commit inodeno (inode\<lparr> filesize := sz mod 2 ^ 32 \<rparr>)) (\<lambda>_.
         returnM 0)
     | ROLLBACK inode \<Rightarrow>
         bindM (INodeProxy_commit inodeno inode) (\<lambda>_.
         bindM (resize depth inodeno (filesize inode0)) (\<lambda>_.
         returnM ENOSPC))))))"

definition STACK_DEPTH :: nat where
  \<comment> \<open>The depth given to every call of resize from outside.\<close>
  "STACK_DEPTH = 16"

definition DataProxy_resize :: "nat \<Rightarrow> nat \<Rightarrow> nat fsm" where
  "DataProxy_resize inodeno sz = resize STACK_DEPTH inodeno sz"

definition get_data_block :: "nat \<Rightarrow> int \<Rightarrow> nat fsm" where
  \<comment> \<open>\<open>DataProxy::get_data_block(int datano)\<close>; an index outside the pointer array is a fault.\<close>
  "get_data_block inodeno datano =
     bindM (INodeProxy_new inodeno) (\<lambda>inode.
     if datano = 0
     then bindM (assertM (direct_pointer inode \<noteq> 0)) (\<lambda>_. returnM (direct_pointer inode))
     else
       bindM (assertM (indirect_pointer inode \<noteq> 0)) (\<lambda>_.
       if datano < 1 + int POINTER_PER_BLOCK
       then
         bindM (load_Raw (indirect_pointer inode)) (\<lambda>pointer.
         if datano - 1 < 0 then failM OutOfBounds
         else
           bindM (assertM (pointers pointer (nat (datano - 1)) \<noteq> 0)) (\<lambda>_.
           returnM (pointers pointer (nat (datano - 1)))))
       else
         bindM (assertM (iindirect_pointer inode \<noteq> 0)) (\<lambda>_.
         bindM (load_Raw (iindirect_pointer inode)) (\<lambda>ipointer.
         let offset0 = nat (datano - (1 + int POINTER_PER_BLOCK));
             id_ind = offset0 div POINTER_PER_BLOCK;
             id_offset = offset0 mod POINTER_PER_BLOCK in
         if POINTER_PER_BLOCK \<le> id_ind then failM OutOfBounds
         else
           bindM (assertM (pointers ipointer id_ind \<noteq> 0)) (\<lambda>_.
           bindM (load_Raw (pointers ipointer id_ind)) (\<lambda>pointer.
           bindM (assertM (pointers pointer id_offset \<noteq> 0)) (\<lambda>_.
           returnM (pointers pointer id_offset))))))))"

subsection \<open>DataProxy: byte I/O\<close>

definition memcpy_from :: "bytes \<Rightarrow> nat \<Rightarrow> nat \<Rightarrow> 8 word list fsm" where
  \<comment> \<open>\<open>memcpy(target, datablock->data + offset_in_block, n)\<close>: reading past the
      \<open>BLOCK_SIZE\<close> bytes of the block buffer is a fault.\<close>
  "memcpy_from data offset_in_block n =
     (if offset_in_block + n \<le> BLOCK_SIZE
      then returnM (map data [offset_in_block ..< offset_in_block + n])
      else failM OutOfBounds)"

definition memcpy_to :: "bytes \<Rightarrow> nat \<Rightarrow> 8 word list \<Rightarrow> nat \<Rightarrow> bytes fsm" where
  \<comment> \<open>\<open>memcpy(datablock->data + offset_in_block, target, n)\<close>: writing past the block
      buffer, or reading past the caller's buffer, is a fault.\<close>
  "memcpy_to data offset_in_block target n =
     (if offset_in_block + n \<le> BLOCK_SIZE \<and> n \<le> length target
      then returnM (\<lambda>i. if offset_in_block \<le> i \<and> i < offset_in_block + n
                          then target ! (i - offset_in_block) else data i)
      else failM OutOfBounds)"

definition bytes_to_read :: "nat \<Rightarrow> nat" where
  \<comment> \<open>\<open>std::min<size_t>(size, BLOCK_SIZE)\<close>, the count copied by one iteration of the
      read loop and of the write loop.\<close>
  "bytes_to_read sz = min sz BLOCK_SIZE"

function read_loop :: "nat \<Rightarrow> nat \<Rightarrow> nat \<Rightarrow> 8 word list \<Rightarrow> 8 word list fsm" where
  \<comment> \<open>\<open>while (size)\<close> of \<open>DataProxy::read\<close>; \<open>target\<close> is what has been copied so far.\<close>
  "read_loop inodeno offset sz target s =
     (if sz \<noteq> 0
      then (case bindM (get_data_block inodeno (to_int (offset div BLOCK_SIZE))) (\<lambda>block_no.
                  bindM (load_Raw block_no) (\<lambda>datablock.
                  memcpy_from datablock (offset mod BLOCK_SIZE) (bytes_to_read sz))) s of
              (Inl e, s') \<Rightarrow> (Inl e, s')
            | (Inr chunk, s') \<Rightarrow>
                read_loop inodeno ((offset + bytes_to_read sz) mod 2 ^ 64)
                  (sz - bytes_to_read sz) (target @ chunk) s')
      else (Inr target, s))"
  by pat_completeness auto
termination
  by (relation "measure (\<lambda>(inodeno, offset, sz, target, s). sz)")
     (auto simp: bytes_to_read_def BLOCK_SIZE_def)

definition DataProxy_read :: "nat \<Rightarrow> nat \<Rightarrow> nat \<Rightarrow> (nat \<times> 8 word list) fsm" where
  \<comment> \<open>\<open>DataProxy::read(offset, size, target)\<close>: the value returned and the bytes copied
      to \<open>target\<close>. \<open>size_t\<close> arithmetic is modulo \<open>2 ^ 64\<close>.\<close>
  "DataProxy_read inodeno offset sz =
     bindM (INodeProxy_new inodeno) (\<lambda>inode0.
     bindM (getsM clock) (\<lambda>t.
     let inode = inode0\<lparr> atime := t mod 2 ^ 32 \<rparr> in
     bindM (INodeProxy_commit inodeno inode) (\<lambda>_.
     let sz' = (min ((offset + sz) mod 2 ^ 64) (filesize inode) + 2 ^ 64 - offset) mod 2 ^ 64 in
     bindM (read_loop inodeno offset sz' []) (\<lambda>target.
     returnM (sz', target)))))"

function write_loop :: "nat \<Rightarrow> nat \<Rightarrow> nat \<Rightarrow> 8 word list \<Rightarrow> unit fsm" where
  \<comment> \<open>\<open>while (size)\<close> of \<open>DataProxy::write\<close>; \<open>target\<close> is what is left of the caller's buffer.\<close>
  "write_loop inodeno offset sz target s =
     (if sz \<noteq> 0
      then (case bindM (get_data_block inodeno (to_int (offset div BLOCK_SIZE))) (\<lambda>block_no.
                  bindM (load_Raw block_no) (\<lambda>datablock.
                  bindM (memcpy_to datablock (offset mod BLOCK_SIZE) target (bytes_to_read sz)) (\<lambda>d.
                  commit block_no (Raw d)))) s of
              (Inl e, s') \<Rightarrow> (Inl e, s')
            | (Inr _, s') \<Rightarrow>
                write_loop inodeno ((offset + bytes_to_read sz) mod 2 ^ 64)
                  (sz - bytes_to_read sz) (drop (bytes_to_read sz) target) s')
      else (Inr (), s))"
  by pat_completeness auto
termination
  by (relation "measure (\<lambda>(inodeno, offset, sz, target, s). sz)")
     (auto simp: bytes_to_read_def BLOCK_SIZE_def)

definition DataProxy_write :: "nat \<Rightarrow> nat \<Rightarrow> nat \<Rightarrow> 8 word list \<Rightarrow> nat fsm" where
  "DataProxy_write inodeno offset sz target =
     bindM (INodeProxy_new inodeno) (\<lambda>inode0.
     bindM (getsM clock) (\<lambda>t.
     let inode = inode0\<lparr> mtime := t mod 2 ^ 32 \<rparr> in
     bindM (INodeProxy_commit inodeno inode) (\<lambda>_.
     let sz' = (if (offset + sz) mod 2 ^ 64 > filesize inode
                then (filesize inode + 2 ^ 64 - offset) mod 2 ^ 64 else sz) in
     bindM (write_loop inodeno offset sz' target) (\<lambda>_.
     returnM sz'))))"

subsection \<open>DirectoryProxy\<close>

record Item =
  file_inode :: nat
  filename :: "8 word list"

definition Item_bytes :: "Item \<Rightarrow> 8 word list" where
  \<comment> \<open>The 32 bytes of an entry: the inode number, then the 28 bytes of the name.\<close>
  "Item_bytes it =
     [of_nat (file_inode it), of_nat (file_inode it div 256),
      of_nat (file_inode it div 65536), of_nat (file_inode it div 16777216)]
     @ take 28 (filename it @ replicate 28 0)"

definition Item_of_bytes :: "8 word list \<Rightarrow> Item" where
  "Item_of_bytes bs =
     \<lparr> file_inode = unat (bs ! 0) + 256 * unat (bs ! 1) + 65536 * unat (bs ! 2)
                    + 16777216 * unat (bs ! 3),
       filename = drop 4 bs \<rparr>"

definition c_str :: "string \<Rightarrow> 8 word list" where
  \<comment> \<open>\<open>strcpy(item.filename, name.c_str())\<close>: the characters, then the terminating NUL.\<close>
  "c_str name = map of_char name @ [0]"

definition name_eq :: "8 word list \<Rightarrow> string \<Rightarrow> bool" where
  \<comment> \<open>\<open>file.filename == filename\<close>: the array is read as a C string, up to its first NUL.\<close>
  "name_eq arr name = (takeWhile (\<lambda>b. b \<noteq> 0) arr = map of_char name)"

definition DirectoryProxy_length :: "nat \<Rightarrow> nat fsm" where
  "DirectoryProxy_length inodeno =
     bindM (INodeProxy_new inodeno) (\<lambda>inode. returnM (filesize inode div 32))"

definition DirectoryProxy_set :: "nat \<Rightarrow> int \<Rightarrow> Item \<Rightarrow> unit fsm" where
  \<comment> \<open>\<open>index\<close> is an \<open>int\<close>; the offset \<open>index * sizeof(Item)\<close> is a \<open>size_t\<close>.\<close>
  "DirectoryProxy_set inodeno index item =
     bindM (DirectoryProxy_length inodeno) (\<lambda>len.
     bindM (assertM (index < int len)) (\<lambda>_.
     bindM (DataProxy_write inodeno (nat ((index * 32) mod 2 ^ 64)) 32 (Item_bytes item)) (\<lambda>_.
     returnM ())))"

definition DirectoryProxy_get :: "nat \<Rightarrow> int \<Rightarrow> Item fsm" where
  \<comment> \<open>A read of fewer than 32 bytes would leave the entry uninitialised: a fault.\<close>
  "DirectoryProxy_get inodeno index =
     bindM (DirectoryProxy_length inodeno) (\<lambda>len.
     bindM (assertM (index < int len)) (\<lambda>_.
     bindM (DataProxy_read inodeno (nat ((index * 32) mod 2 ^ 64)) 32) (\<lambda>(n, bs).
     if length bs = 32 then returnM (Item_of_bytes bs) else failM OutOfBounds)))"

definition DirectoryProxy_push :: "nat \<Rightarrow> Item \<Rightarrow> nat fsm" where
  "DirectoryProxy_push inodeno item =
     bindM (DirectoryProxy_length inodeno) (\<lambda>len.
     bindM (DataProxy_resize inodeno ((len + 1) * 32)) (\<lambda>err.
     if err \<noteq> 0 then returnM err
     else bindM (DirectoryProxy_set inodeno (int len) item) (\<lambda>_. returnM 0)))"

definition DirectoryProxy_erase :: "nat \<Rightarrow> int \<Rightarrow> unit fsm" where
  "DirectoryProxy_erase inodeno index =
     bindM (DirectoryProxy_length inodeno) (\<lambda>len.
     bindM (DirectoryProxy_get inodeno (int len - 1)) (\<lambda>last.
     bindM (DirectoryProxy_set inodeno index last) (\<lambda>_.
     bindM (DataProxy_resize inodeno (nat (((int len - 1) * 32) mod 2 ^ 64))) (\<lambda>err.
     assertM (err = 0)))))"

subsection \<open>fs.cpp: paths\<close>

definition find_from :: "string \<Rightarrow> char \<Rightarrow> nat \<Rightarrow> nat option" where
  \<comment> \<open>\<open>str.find(c, pos)\<close>; \<open>None\<close> is \<open>npos\<close>.\<close>
  "find_from str c pos = find (\<lambda>i. str ! i = c) [pos ..< length str]"

definition find_first_not_of :: "string \<Rightarrow> char \<Rightarrow> nat option" where
  "find_first_not_of str c = find (\<lambda>i. str ! i \<noteq> c) [0 ..< length str]"

definition find_last_of :: "string \<Rightarrow> char \<Rightarrow> nat option" where
  "find_last_of str c = find (\<lambda>i. str ! i = c) (rev [0 ..< length str])"

definition substr_to :: "string \<Rightarrow> nat option \<Rightarrow> string" where
  \<comment> \<open>\<open>str.substr(0, pos)\<close>; with \<open>npos\<close> the whole string.\<close>
  "substr_to str pos = (case pos of None \<Rightarrow> str | Some i \<Rightarrow> take i str)"

definition substr_after :: "string \<Rightarrow> nat option \<Rightarrow> string" where
  \<comment> \<open>\<open>str.substr(pos + 1)\<close>; \<open>npos + 1\<close> is 0.\<close>
  "substr_after str pos = (case pos of None \<Rightarrow> str | Some i \<Rightarrow> drop (i + 1) str)"

function split_loop :: "string \<Rightarrow> nat \<Rightarrow> nat option \<Rightarrow> string list \<Rightarrow> string list" where
  \<comment> \<open>\<open>while (end != str.npos)\<close> of \<open>split_path\<close>, and the \<open>if\<close> after it.\<close>
  "split_loop str st e ret =
     (case e of
        Some en \<Rightarrow>
          split_loop str (en + 1) (find_from str CHR ''/'' (en + 1))
            (ret @ [take (en - st) (drop st str)])
      | None \<Rightarrow> (if st < length str then ret @ [drop st str] else ret))"
  by pat_completeness auto
termination
proof (relation "measure (\<lambda>(str, st, e, ret).
          case e of None \<Rightarrow> 0 | Some en \<Rightarrow> Suc (length str - en))")
  show "wf (measure (\<lambda>(str, st, e, ret).
          case e of None \<Rightarrow> 0 | Some en \<Rightarrow> Suc (length str - en)))"
    by simp
next
  fix str :: string and st :: nat and e :: "nat option" and ret :: "string list" and en :: nat
  assume "e = Some en"
  then show "((str, en + 1, find_from str CHR ''/'' (en + 1), ret @ [take (en - st) (drop st str)]),
              (str, st, e, ret))
        \<in> measure (\<lambda>(str, st, e, ret).
          case e of None \<Rightarrow> 0 | Some en \<Rightarrow> Suc (length str - en))"
    by (auto simp: find_from_def find_Some_iff split: option.splits)
qed

definition split_path :: "string \<Rightarrow> string list" where
  \<comment> \<open>With no character other than '/', \<open>start\<close> is -1, \<open>end\<close> is \<open>npos\<close> and the unsigned
      comparison \<open>start < str.length()\<close> fails: the result is empty.\<close>
  "split_path str =
     (case find_first_not_of str CHR ''/'' of
        None \<Rightarrow> []
      | Some st \<Rightarrow> split_loop str st (find_from str CHR ''/'' st) [])"

function get_file_loop :: "nat \<Rightarrow> string \<Rightarrow> nat \<Rightarrow> nat \<Rightarrow> nat option fsm" where
  \<comment> \<open>\<open>for (int i = 0; i < length; i++)\<close> of \<open>get_file_in_inode\<close>.\<close>
  "get_file_loop inodeno name len i s =
     (if i < len
      then (case DirectoryProxy_get inodeno (int i) s of
              (Inl e, s') \<Rightarrow> (Inl e, s')
            | (Inr file, s') \<Rightarrow>
                if name_eq (filename file) name then (Inr (Some (file_inode file)), s')
                else get_file_loop inodeno name len (i + 1) s')
      else (Inr None, s))"
  by pat_completeness auto
termination
  by (relation "measure (\<lambda>(inodeno, name, len, i, s). len - i)") auto

definition get_file_in_inode :: "nat \<Rightarrow> string \<Rightarrow> nat option fsm" where
  "get_file_in_inode inodeno name =
     bindM (DirectoryProxy_length inodeno) (\<lambda>len. get_file_loop inodeno name len 0)"

fun walk :: "nat \<Rightarrow> string list \<Rightarrow> nat option fsm" where
  \<comment> \<open>\<open>for (auto &&filename : filenames)\<close> of \<open>get_inode_from_path\<close>.\<close>
  "walk now_inode [] = returnM (Some now_inode)"
| "walk now_inode (name # names) =
     bindM (get_file_in_inode now_inode name) (\<lambda>r.
     case r of None \<Rightarrow> returnM None | Some n \<Rightarrow> walk n names)"

definition get_inode_from_path :: "string \<Rightarrow> nat option fsm" where
  "get_inode_from_path path = walk 0 (split_path path)"

subsection \<open>fs.cpp: operations\<close>

definition new_inode :: "INodeType \<Rightarrow> nat \<Rightarrow> INode" where
  \<comment> \<open>\<open>memset(&*inode, 0, ...)\<close>, then the three times and the type.\<close>
  "new_inode mode t =
     \<lparr> type = mode, filesize = 0, atime = t mod 2 ^ 32, mtime = t mod 2 ^ 32,
       ctime = t mod 2 ^ 32, direct_pointer = 0, indirect_pointer = 0, iindirect_pointer = 0 \<rparr>"

definition make_node :: "string \<Rightarrow> INodeType \<Rightarrow> int fsm" where
  "make_node path mode =
     (let dirname = substr_to path (find_last_of path CHR ''/'');
          name = substr_after path (find_last_of path CHR ''/'') in
      bindM (get_inode_from_path dirname) (\<lambda>d. case d of
         None \<Rightarrow> returnM (- int ENOENT)
       | Some dirnode \<Rightarrow>
           bindM (get_file_in_inode dirnode name) (\<lambda>f. case f of
              Some filenode \<Rightarrow> returnM 0
            | None \<Rightarrow>
                if length name > 24 then returnM (- int ENOSPC)
                else
                  bindM alloc_inode (\<lambda>a. case a of
                     None \<Rightarrow> returnM (- int ENOSPC)
                   | Some ino \<Rightarrow>
                       bindM (INodeProxy_new ino) (\<lambda>_.
                       bindM (getsM clock) (\<lambda>t.
                       bindM (INodeProxy_commit ino (new_inode mode t)) (\<lambda>_.
                       bindM (DirectoryProxy_push dirnode
                                \<lparr> file_inode = ino, filename = c_str name \<rparr>) (\<lambda>err.
                       if err \<noteq> 0
                       then bindM (free_inode ino) (\<lambda>_. returnM (- int err))
                       else returnM 0))))))))"

function delete_loop :: "nat \<Rightarrow> nat \<Rightarrow> string \<Rightarrow> nat \<Rightarrow> nat \<Rightarrow> int fsm" where
  \<comment> \<open>\<open>for (int i = 0, end = directory.length(); i < end; i++)\<close> of \<open>delete_node\<close>;
      falling out of the loop reaches \<open>assert(false)\<close>.\<close>
  "delete_loop dirnode filenode name len i s =
     (if i < len
      then (case DirectoryProxy_get dirnode (int i) s of
              (Inl e, s') \<Rightarrow> (Inl e, s')
            | (Inr file, s') \<Rightarrow>
                if name_eq (filename file) name
                then bindM (DirectoryProxy_erase dirnode (int i)) (\<lambda>_.
                     bindM (free_inode filenode) (\<lambda>_. returnM 0)) s'
                else delete_loop dirnode filenode name len (i + 1) s')
      else (Inl AssertionFail, s))"
  by pat_completeness auto
termination
  by (relation "measure (\<lambda>(dirnode, filenode, name, len, i, s). len - i)") auto

definition delete_node :: "string \<Rightarrow> int fsm" where
  "delete_node path =
     (let dirname = substr_to path (find_last_of path CHR ''/'');
          name = substr_after path (find_last_of path CHR ''/'') in
      bindM (get_inode_from_path dirname) (\<lambda>d. case d of
         None \<Rightarrow> returnM (- int ENOENT)
       | Some dirnode \<Rightarrow>
           bindM (get_file_in_inode dirnode name) (\<lambda>f. case f of
              None \<Rightarrow> returnM (- int ENOENT)
            | Some filenode \<Rightarrow>
                bindM (DataProxy_resize filenode 0) (\<lambda>_.
                bindM (DirectoryProxy_length dirnode) (\<lambda>len.
                delete_loop dirnode filenode name len 0)))))"

definition fs_mknod :: "string \<Rightarrow> int fsm" where
  "fs_mknod path = make_node path FILE"

definition fs_mkdir :: "string \<Rightarrow> int fsm" where
  "fs_mkdir path = make_node path DIRECTORY"

definition fs_rmdir :: "string \<Rightarrow> int fsm" where
  "fs_rmdir path = delete_node path"

definition fs_unlink :: "string \<Rightarrow> int fsm" where
  "fs_unlink path = delete_node path"

definition fs_open :: "string \<Rightarrow> (int \<times> nat) fsm" where
  \<comment> \<open>The status and the file handle stored in \<open>fi->fh\<close> (0 where none is stored).\<close>
  "fs_open path =
     bindM (walk 0 (split_path path)) (\<lambda>r. case r of
        None \<Rightarrow> returnM (- int ENOENT, 0)
      | Some n \<Rightarrow> returnM (0, n))"

definition fs_read :: "nat \<Rightarrow> nat \<Rightarrow> nat \<Rightarrow> (nat \<times> 8 word list) fsm" where
  \<comment> \<open>\<open>fs_read(path, buffer, size, offset, fi)\<close> with \<open>fh = fi->fh\<close>: the count returned by
      \<open>DataProxy::read\<close> and the bytes stored in \<open>buffer\<close>.\<close>
  "fs_read fh sz offset = DataProxy_read fh offset sz"

definition fs_write :: "nat \<Rightarrow> 8 word list \<Rightarrow> nat \<Rightarrow> nat \<Rightarrow> int fsm" where
  \<comment> \<open>\<open>fs_write(path, buffer, size, offset, fi)\<close> with \<open>fh = fi->fh\<close>.\<close>
  "fs_write fh buffer sz offset =
     bindM (INodeProxy_new fh) (\<lambda>inode.
     bindM (if (sz + offset) mod 2 ^ 64 > filesize inode
            then DataProxy_resize fh ((sz + offset) mod 2 ^ 64)
            else returnM 0) (\<lambda>err.
     if err \<noteq> 0 then returnM (- int err)
     else bindM (DataProxy_write fh offset sz buffer) (\<lambda>n. returnM (to_int n))))"

definition fs_truncate :: "string \<Rightarrow> nat \<Rightarrow> int fsm" where
  "fs_truncate path sz =
     bindM (get_inode_from_path path) (\<lambda>r. case r of
        None \<Rightarrow> returnM (- int ENOENT)
      | Some now_inode \<Rightarrow>
          bindM (DataProxy_resize now_inode sz) (\<lambda>err. returnM (- int err)))"

subsection \<open>Disk::mkfs\<close>

fun mkfs_bitmaps :: "nat \<Rightarrow> nat \<Rightarrow> unit fsm" where
  \<comment> \<open>\<open>for (int i = 1; i < header->inode_block_offset; i++)\<close>: \<open>n\<close> blocks from block \<open>i\<close>
      are written with the zeroed bitmap buffer.\<close>
  "mkfs_bitmaps i 0 = returnM ()"
| "mkfs_bitmaps i (Suc n) =
     bindM (commit i (Bitmap (\<lambda>_. 0))) (\<lambda>_. mkfs_bitmaps (i + 1) n)"

definition Disk_mkfs :: "int fsm" where
  \<comment> \<open>The loads of block 0 and block 1 only check the block number: both buffers are
      overwritten before they are used.\<close>
  "Disk_mkfs =
     bindM (getsM BLOCK_NUM) (\<lambda>block_num.
     bindM (from_blockno 0) (\<lambda>_.
     let header = HeaderBlock_new block_num in
     bindM (commit 0 (Header header)) (\<lambda>_.
     bindM (from_blockno 1) (\<lambda>_.
     bindM (mkfs_bitmaps 1 (inode_block_offset header - 1)) (\<lambda>_.
     bindM alloc_inode (\<lambda>a. case a of
        None \<Rightarrow> failM OutOfBounds
      | Some rootINodeNo \<Rightarrow>
          bindM (INodeProxy_new rootINodeNo) (\<lambda>_.
          bindM (getsM clock) (\<lambda>t.
          bindM (INodeProxy_commit rootINodeNo (new_inode DIRECTORY t)) (\<lambda>_.
          bindM (DataProxy_resize rootINodeNo 0) (\<lambda>_.
          returnM 0))))))))))"

definition mkfs :: "int fsm" where
  "mkfs = bindM Disk_mkfs (\<lambda>_. returnM 0)"

subsection \<open>Observations and scenarios\<close>

definition lab_device :: "(nat \<Rightarrow> nat \<Rightarrow> INode) \<Rightarrow> (nat \<Rightarrow> bytes) \<Rightarrow> nat \<Rightarrow> fs" where
  \<comment> \<open>The process when \<open>main\<close> calls \<open>mkfs\<close>: a device of 65536 blocks whose content is
      arbitrary (\<open>itab\<close> in the blocks that will hold the inode table, \<open>raw\<close> elsewhere),
      both hints 0 as initialised statically, the time \<open>t\<close>, nothing written yet.\<close>
  "lab_device itab raw t =
     \<lparr> BLOCK_NUM = 65536,
       disk = (\<lambda>b. if 5 \<le> b \<and> b < 516 then INodes (itab b) else Raw (raw b)),
       data_bitmap_min_pos = 0, inode_bitmap_min_pos = 0, clock = t, writes = [] \<rparr>"

definition scenario_S2 :: "((nat \<times> 8 word list) \<times> (nat \<times> 8 word list)) fsm" where
  \<comment> \<open>Scenario S2 of the spec; \<open>0x5A\<close> is the character Z. The result is the pair of the two reads.\<close>
  "scenario_S2 =
     bindM mkfs (\<lambda>_.
     bindM (fs_mknod ''/f'') (\<lambda>_.
     bindM (fs_truncate ''/f'' (4096 * 13)) (\<lambda>_.
     bindM (fs_open ''/f'') (\<lambda>(_, fh).
     bindM (fs_write fh [0x5A] 1 (4096 * 12)) (\<lambda>_.
     bindM (fs_read fh 1 (4096 * 12)) (\<lambda>r1.
     bindM (fs_read fh 1 0) (\<lambda>r2.
     returnM (r1, r2))))))))"

definition scenario_unaligned :: "(nat \<times> 8 word list) fsm" where
  \<comment> \<open>A file of two blocks; the two bytes AB are written at offset 4095, across the
      boundary between its blocks, and read back.\<close>
  "scenario_unaligned =
     bindM mkfs (\<lambda>_.
     bindM (fs_mknod ''/f'') (\<lambda>_.
     bindM (fs_open ''/f'') (\<lambda>(_, fh).
     bindM (DataProxy_resize fh 8192) (\<lambda>_.
     bindM (DataProxy_write fh 4095 2 [0x41, 0x42]) (\<lambda>_.
     DataProxy_read fh 4095 2)))))"

definition scenario_read_past_end :: "(nat \<times> 8 word list) fsm" where
  \<comment> \<open>A file of 5 bytes is read at offset 4096.\<close>
  "scenario_read_past_end =
     bindM mkfs (\<lambda>_.
     bindM (fs_mknod ''/f'') (\<lambda>_.
     bindM (fs_open ''/f'') (\<lambda>(_, fh).
     bindM (DataProxy_resize fh 5) (\<lambda>_.
     DataProxy_read fh 4096 1))))"

definition used_device :: fs where
  \<comment> \<open>A device that was used before: every byte outside the metadata is \<open>0xFF\<close>.\<close>
  "used_device = lab_device (\<lambda>_ _. new_inode FILE 0) (\<lambda>_ _. 0xFF) 0"


fun alloc_many :: "nat \<Rightarrow> unit fsm" where
  \<comment> \<open>\<open>n\<close> calls of \<open>Disk::alloc_data\<close>, one after the other.\<close>
  "alloc_many 0 = returnM ()"
| "alloc_many (Suc n) = bindM alloc_data (\<lambda>_. alloc_many n)"

definition scenario_free_past_end :: "unit fsm" where
  \<comment> \<open>After the format one data block is allocated; then \<open>free_inode\<close> is called with
      65536, a number past the 65408 inodes and past the 65536 bits of the two blocks
      of the inode bitmap.\<close>
  "scenario_free_past_end =
     bindM Disk_mkfs (\<lambda>_.
     bindM alloc_data (\<lambda>_.
     free_inode 65536))"

definition scenario_stale_hint :: "(nat \<times> nat option \<times> nat option \<times> nat option) fsm" where
  \<comment> \<open>After the format 65 data blocks are allocated, then \<open>free_inode\<close> is called with
      65536. The result: the hint of the data bitmap, the first zero of the data bitmap
      searched from the hint, the first zero searched from 0, and what \<open>alloc_data\<close>
      then returns.\<close>
  "scenario_stale_hint =
     bindM Disk_mkfs (\<lambda>_.
     bindM (alloc_many 65) (\<lambda>_.
     bindM (free_inode 65536) (\<lambda>_.
     bindM get_header (\<lambda>h.
     bindM (getsM data_bitmap_min_pos) (\<lambda>hint.
     bindM (BitMap_get_first_zero \<lparr> minpos = hint, start = data_block_bitmap_offset h,
                                     end' = inode_block_offset h \<rparr>) (\<lambda>from_hint.
     bindM (BitMap_get_first_zero \<lparr> minpos = 0, start = data_block_bitmap_offset h,
                                     end' = inode_block_offset h \<rparr>) (\<lambda>from_zero.
     bindM alloc_data (\<lambda>d.
     returnM (hint, from_hint, from_zero, d)))))))))"




subsection \<open>What the allocator maintains\<close>

definition bitmap_bit :: "fs \<Rightarrow> nat \<Rightarrow> nat \<Rightarrow> bool" where
  \<comment> \<open>Bit \<open>pos\<close> of the bitmap whose first block is \<open>st\<close>, as \<open>BitMap::get\<close> reads it.\<close>
  "bitmap_bit s st pos =
     (case disk s (pos div siz + st) of Bitmap w \<Rightarrow> BitmapBlock_get w (pos mod siz) | _ \<Rightarrow> False)"

definition bitmap_blocks :: "fs \<Rightarrow> nat \<Rightarrow> nat \<Rightarrow> bool" where
  \<comment> \<open>The blocks \<open>[st, en)\<close> are on the device and hold bitmaps.\<close>
  "bitmap_blocks s st en \<longleftrightarrow>
     en \<le> BLOCK_NUM s \<and> (\<forall>b. st \<le> b \<and> b < en \<longrightarrow> (\<exists>w. disk s b = Bitmap w))"

definition lowest_clear :: "fs \<Rightarrow> nat \<Rightarrow> nat \<Rightarrow> nat option \<Rightarrow> bool" where
  \<comment> \<open>\<open>r\<close> is the lowest clear position of the bitmap in blocks \<open>[st, en)\<close>, or \<open>None\<close>
      when every bit is set: what a scan from position 0 has to find.\<close>
  "lowest_clear s st en r \<longleftrightarrow>
     (case r of
        Some g \<Rightarrow> g < (en - st) * siz \<and> \<not> bitmap_bit s st g \<and> (\<forall>q. q < g \<longrightarrow> bitmap_bit s st q)
      | None \<Rightarrow> (\<forall>q. q < (en - st) * siz \<longrightarrow> bitmap_bit s st q))"

definition bitmap_ok :: "fs \<Rightarrow> nat \<Rightarrow> nat \<Rightarrow> nat \<Rightarrow> nat \<Rightarrow> nat \<Rightarrow> bool" where
  \<comment> \<open>The bitmap in blocks \<open>[st, en)\<close> covers \<open>tot\<close> objects of which \<open>free\<close> are free, and
      \<open>hint\<close> is a valid hint: no bit past \<open>tot\<close> is set, every bit below the hint is set,
      and \<open>free\<close> counts the clear bits below \<open>tot\<close>.\<close>
  "bitmap_ok s st en tot free hint \<longleftrightarrow>
     0 < st \<and> st \<le> en \<and> bitmap_blocks s st en \<and> tot \<le> (en - st) * siz \<and> tot < 2 ^ 32
     \<and> (\<forall>p. tot \<le> p \<and> p < (en - st) * siz \<longrightarrow> \<not> bitmap_bit s st p)
     \<and> hint \<le> tot \<and> (\<forall>p. p < hint \<longrightarrow> bitmap_bit s st p)
     \<and> free = card {p. p < tot \<and> \<not> bitmap_bit s st p}"

definition alloc_inv :: "fs \<Rightarrow> bool" where
  "alloc_inv s \<longleftrightarrow>
     (\<exists>h. disk s 0 = Header h
        \<and> bitmap_ok s (inode_bitmap_offset h) (data_block_bitmap_offset h)
             (inode_num_tot h) (inode_num_free h) (inode_bitmap_min_pos s)
        \<and> bitmap_ok s (data_block_bitmap_offset h) (inode_block_offset h)
             (data_block_num_tot h) (data_block_num_free h) (data_bitmap_min_pos s))"

definition clear_bits :: "fs \<Rightarrow> nat \<Rightarrow> nat \<Rightarrow> nat" where
  \<comment> \<open>The number of clear bits among the first \<open>tot\<close> positions of a bitmap.\<close>
  "clear_bits s st tot = card {p. p < tot \<and> \<not> bitmap_bit s st p}"

definition popcount :: "fs \<Rightarrow> nat \<Rightarrow> nat \<Rightarrow> nat" where
  \<comment> \<open>The number of set bits of the bitmap in blocks \<open>[st, en)\<close>.\<close>
  "popcount s st en = card {p. p < (en - st) * siz \<and> bitmap_bit s st p}"

definition bit_and_count :: "fs \<Rightarrow> fs \<Rightarrow> nat \<Rightarrow> nat \<Rightarrow> bool \<Rightarrow> nat \<Rightarrow> nat \<Rightarrow> bool" where
  \<comment> \<open>From \<open>s\<close> to \<open>s'\<close> bit \<open>p\<close> of the bitmap at \<open>st\<close> went from \<open>\<not> v\<close> to \<open>v\<close>, no other
      bit changed, and the count of free objects went from \<open>free\<close> to \<open>free'\<close> by one.\<close>
  "bit_and_count s s' st p v free free' \<longleftrightarrow>
     bitmap_bit s st p = (\<not> v) \<and> bitmap_bit s' st p = v
     \<and> (\<forall>q. q \<noteq> p \<longrightarrow> bitmap_bit s' st q = bitmap_bit s st q)
     \<and> (if v then free' + 1 = free else free' = free + 1)"

inductive reachable_in_range :: "fs \<Rightarrow> bool" where
  \<comment> \<open>The states after \<open>mkfs\<close> at the start of the process and any sequence of the four
      allocator operations in which every number freed is in range: an inode number below
      \<open>inode_num_tot\<close>, a block number below the end of the data region. The source
      checks neither bound (\<open>BitMap::get\<close> and \<open>BitMap::clear\<close> never compare the
      position with \<open>end\<close>); the bounds are a restriction of this predicate, not of
      the code.\<close>
  formatted:
    "BLOCK_NUM s0 < 2 ^ 31 \<Longrightarrow> data_bitmap_min_pos s0 = 0 \<Longrightarrow> inode_bitmap_min_pos s0 = 0
     \<Longrightarrow> Disk_mkfs s0 = (Inr r, s) \<Longrightarrow> reachable_in_range s"
| after_alloc_inode:
    "reachable_in_range s \<Longrightarrow> alloc_inode s = (Inr r, s') \<Longrightarrow> reachable_in_range s'"
| after_free_inode:
    "reachable_in_range s \<Longrightarrow> disk s 0 = Header h \<Longrightarrow> n < inode_num_tot h
     \<Longrightarrow> free_inode n s = (Inr (), s') \<Longrightarrow> reachable_in_range s'"
| after_alloc_data:
    "reachable_in_range s \<Longrightarrow> alloc_data s = (Inr r, s') \<Longrightarrow> reachable_in_range s'"
| after_free_data:
    "reachable_in_range s \<Longrightarrow> disk s 0 = Header h
     \<Longrightarrow> bn < data_block_offset h + data_block_num_tot h
     \<Longrightarrow> free_data bn s = (Inr (), s') \<Longrightarrow> reachable_in_range s'"

definition after_65_blocks :: fs where
  \<comment> \<open>The state after the format of \<open>used_device\<close> and 65 calls of \<open>alloc_data\<close>.\<close>
  "after_65_blocks = snd (alloc_many 65 (snd (Disk_mkfs used_device)))"

definition allocator_view :: "fs \<Rightarrow> block \<times> nat \<times> nat \<times> bool \<times> bool" where
  \<comment> \<open>Block 0, the two hints, bit 0 of the inode bitmap and bit 4 of the data bitmap of
      the lab geometry (inode bitmap from block 1, data bitmap from block 3).\<close>
  "allocator_view s =
     (disk s 0, inode_bitmap_min_pos s, data_bitmap_min_pos s, bitmap_bit s 1 0, bitmap_bit s 3 4)"
subsection \<open>The order of the writes\<close>







subsection \<open>What no operation but the inode allocator changes\<close>

definition tag :: "block \<Rightarrow> nat" where
  \<comment> \<open>The type at which a block is used.\<close>
  "tag b = (case b of Header _ \<Rightarrow> 0 | Bitmap _ \<Rightarrow> 1 | INodes _ \<Rightarrow> 2 | Raw _ \<Rightarrow> 3)"

definition geometry :: "HeaderBlock \<Rightarrow> HeaderBlock" where
  \<comment> \<open>The superblock without its two free counts.\<close>
  "geometry h = h\<lparr> inode_num_free := 0, data_block_num_free := 0 \<rparr>"

definition keeps :: "fs \<Rightarrow> fs \<Rightarrow> bool" where
  \<comment> \<open>From \<open>s0\<close> to \<open>s\<close> every block is used at the same type, the superblock has the same
      geometry, and the bitmap blocks before the data bitmap hold what they held.\<close>
  "keeps s0 s \<longleftrightarrow>
     (\<forall>b. tag (disk s b) = tag (disk s0 b))
     \<and> (\<forall>h0. disk s0 0 = Header h0 \<longrightarrow>
           (\<exists>h. disk s 0 = Header h \<and> geometry h = geometry h0)
           \<and> (\<forall>b w. b < data_block_bitmap_offset h0 \<longrightarrow> disk s0 b = Bitmap w \<longrightarrow> disk s b = Bitmap w))"

definition pres :: "fs \<Rightarrow> 'a fsm \<Rightarrow> bool" where
  \<comment> \<open>Every run of \<open>m\<close> from a state that keeps \<open>s0\<close> ends in a state that keeps \<open>s0\<close>.\<close>
  "pres s0 m \<longleftrightarrow> (\<forall>s r s'. keeps s0 s \<longrightarrow> m s = (r, s') \<longrightarrow> keeps s0 s')"
section \<open>Running the model\<close>

text \<open>
  Equations that run a program on a state, head first: a continuation is looked at only
  once its argument is known.
\<close>

declare BitmapBlock_scan.simps [simp del] BitMap_scan.simps [simp del]
  count_nonzero.simps [simp del] get_block_size_iind.simps [simp del]
  resize_loop.simps [simp del] resize.simps [simp del]
  read_loop.simps [simp del] write_loop.simps [simp del]
  split_loop.simps [simp del] get_file_loop.simps [simp del]
  walk.simps [simp del] delete_loop.simps [simp del] mkfs_bitmaps.simps [simp del]
  alloc_many.simps [simp del]

lemma bindM_apply:
  "bindM m f s = (case m s of (Inl e, s') \<Rightarrow> (Inl e, s') | (Inr x, s') \<Rightarrow> f x s')"
  by (simp add: bindM_def)

lemma bindM_block: "bindM m f = bindM m f"
  by (rule refl)

lemma fs_freeze_log:
  "a = a' \<Longrightarrow> b = b' \<Longrightarrow> c = c' \<Longrightarrow> d = d' \<Longrightarrow> e = e' \<Longrightarrow>
   fs_ext a b c d e w u = fs_ext a' b' c' d' e' w u"
  by simp

lemma returnM_apply: "returnM x s = (Inr x, s)"
  by (simp add: returnM_def)

lemma failM_apply: "failM e s = (Inl e, s)"
  by (simp add: failM_def)

lemma getsM_apply: "getsM f s = (Inr (f s), s)"
  by (simp add: getsM_def)

lemma modifyM_apply: "modifyM f s = (Inr (), f s)"
  by (simp add: modifyM_def)

lemma assertM_apply: "assertM b s = (if b then (Inr (), s) else (Inl AssertionFail, s))"
  by (simp add: assertM_def returnM_def failM_def)

lemma from_blockno_apply:
  "from_blockno b s = (if b < BLOCK_NUM s then (Inr (disk s b), s) else (Inl AssertionFail, s))"
  by (simp add: from_blockno_def bindM_def getsM_def assertM_def returnM_def failM_def)

lemma commit_apply:
  "commit b blk s = (Inr (), s\<lparr> disk := (disk s)(b := blk), writes := writes s @ [(b, blk)] \<rparr>)"
  by (simp add: commit_def modifyM_def)

lemma load_Header_apply:
  "load_Header b s =
     (if b < BLOCK_NUM s
      then (case disk s b of Header h \<Rightarrow> (Inr h, s) | _ \<Rightarrow> (Inl WrongBlockType, s))
      else (Inl AssertionFail, s))"
  by (simp add: load_Header_def bindM_apply from_blockno_apply returnM_def failM_def
           split: block.splits)

lemma load_Bitmap_apply:
  "load_Bitmap b s =
     (if b < BLOCK_NUM s
      then (case disk s b of Bitmap w \<Rightarrow> (Inr w, s) | _ \<Rightarrow> (Inl WrongBlockType, s))
      else (Inl AssertionFail, s))"
  by (simp add: load_Bitmap_def bindM_apply from_blockno_apply returnM_def failM_def
           split: block.splits)

lemma load_INodes_apply:
  "load_INodes b s =
     (if b < BLOCK_NUM s
      then (case disk s b of INodes t \<Rightarrow> (Inr t, s) | _ \<Rightarrow> (Inl WrongBlockType, s))
      else (Inl AssertionFail, s))"
  by (simp add: load_INodes_def bindM_apply from_blockno_apply returnM_def failM_def
           split: block.splits)

lemma load_Raw_apply:
  "load_Raw b s =
     (if b < BLOCK_NUM s
      then (case disk s b of Raw d \<Rightarrow> (Inr d, s) | _ \<Rightarrow> (Inl WrongBlockType, s))
      else (Inl AssertionFail, s))"
  by (simp add: load_Raw_def bindM_apply from_blockno_apply returnM_def failM_def
           split: block.splits)

lemma resize_apply:
  "resize n i sz s =
     (if n = 0 then (Inl StackExhausted, s)
      else
        bindM (get_block_size i) (\<lambda>block_now.
        bindM (INodeProxy_new i) (\<lambda>inode0.
        bindM (getsM clock) (\<lambda>t.
        bindM (resize_loop (block_need_of sz) block_now (inode0\<lparr> ctime := t mod 2 ^ 32 \<rparr>)) (\<lambda>r.
        case r of
          Next inode \<Rightarrow>
            bindM (INodeProxy_commit i (inode\<lparr> filesize := sz mod 2 ^ 32 \<rparr>)) (\<lambda>_.
            returnM 0)
        | ROLLBACK inode \<Rightarrow>
            bindM (INodeProxy_commit i inode) (\<lambda>_.
            bindM (resize (n - 1) i (filesize inode0)) (\<lambda>_.
            returnM ENOSPC)))))) s)"
  by (cases n) (simp_all add: resize.simps failM_def)

lemma mkfs_bitmaps_apply:
  "mkfs_bitmaps i n s =
     (if n = 0 then (Inr (), s)
      else bindM (commit i (Bitmap (\<lambda>_. 0))) (\<lambda>_. mkfs_bitmaps (i + 1) (n - 1)) s)"
  by (cases n) (simp_all add: mkfs_bitmaps.simps returnM_def)

lemma alloc_many_apply:
  "alloc_many n s =
     (if n = 0 then (Inr (), s) else bindM alloc_data (\<lambda>_. alloc_many (n - 1)) s)"
  by (cases n) (simp_all add: alloc_many.simps returnM_def)

lemma walk_apply:
  "walk n names s =
     (case names of
        [] \<Rightarrow> (Inr (Some n), s)
      | name # rest \<Rightarrow>
          bindM (get_file_in_inode n name) (\<lambda>r.
          case r of None \<Rightarrow> returnM None | Some n \<Rightarrow> walk n rest) s)"
  by (cases names) (simp_all add: walk.simps returnM_def)

function lowest_bit :: "64 word \<Rightarrow> nat \<Rightarrow> nat" where
  "lowest_bit w i = (if i < 64 then (if bit w i then i + 1 else lowest_bit w (i + 1)) else 0)"
  by pat_completeness auto
termination
  by (relation "measure (\<lambda>(w, i). 64 - i)") auto

declare lowest_bit.simps [simp del]

lemma ffsll_lowest_aux:
  "i \<le> 64 \<Longrightarrow> (case find (bit w) [i..<64] of None \<Rightarrow> 0 | Some k \<Rightarrow> k + 1) = lowest_bit w i"
proof (induction w i rule: lowest_bit.induct)
  case (1 w i)
  show ?case
  proof (cases "i < 64")
    case True
    then show ?thesis
      using 1 by (subst lowest_bit.simps) (simp add: upt_conv_Cons)
  next
    case False
    then show ?thesis
      using 1 by (subst lowest_bit.simps) simp
  qed
qed

lemma ffsll_lowest: "ffsll w = lowest_bit w 0"
  by (simp add: ffsll_def ffsll_lowest_aux)

lemma HeaderBlock_new_lab:
  "HeaderBlock_new 65536 =
     \<lparr> MAGIC_NUMBER = 0x19260817, inode_num_tot = 65408, inode_num_free = 65408,
       inode_bitmap_offset = 1, inode_block_offset = 5, data_block_num_tot = 65020,
       data_block_num_free = 65020, data_block_bitmap_offset = 3, data_block_offset = 516 \<rparr>"
  by (simp add: HeaderBlock_new_def Let_def INODE_IN_BLOCK_def BLOCK_SIZE_def DIVIDE_CEIL_def)

lemmas exec_consts =
  BLOCK_SIZE_def ENOSPC_def ENOENT_def INODE_IN_BLOCK_def POINTER_PER_BLOCK_def siz_def
  STACK_DEPTH_def DIVIDE_CEIL_def Let_def upt_conv_Cons

lemmas exec_monad =
  returnM_apply failM_apply bindM_apply assertM_apply getsM_apply modifyM_apply
  from_blockno_apply commit_apply load_Header_apply load_Bitmap_apply load_INodes_apply
  load_Raw_apply get_header_def

lemmas exec_alloc =
  ffsll_lowest lowest_bit.simps BitmapBlock_set_def BitmapBlock_clear_def BitmapBlock_get_def
  BitmapBlock_scan.simps BitmapBlock_get_first_zero_def
  BitMap_set_def [THEN fun_cong] BitMap_clear_def [THEN fun_cong] BitMap_get_def [THEN fun_cong]
  BitMap_scan.simps BitMap_get_first_zero_def [THEN fun_cong]
  alloc_inode_def [THEN fun_cong] free_inode_def [THEN fun_cong]
  alloc_data_def [THEN fun_cong] free_data_def [THEN fun_cong]

lemmas exec_extent =
  INodeProxy_new_def [THEN fun_cong] INodeProxy_commit_def [THEN fun_cong] new_inode_def
  pointers_def set_pointer_def zero_block_def count_nonzero.simps get_block_size_iind.simps
  get_block_size_def [THEN fun_cong] new_pointer_block_def [THEN fun_cong]
  grow_direct_def [THEN fun_cong] grow_indirect_def [THEN fun_cong]
  grow_iindirect_def [THEN fun_cong] shrink_direct_def [THEN fun_cong]
  shrink_indirect_def [THEN fun_cong] shrink_iindirect_def [THEN fun_cong]
  grow_step_def [THEN fun_cong] shrink_step_def [THEN fun_cong]
  resize_loop.simps to_int_def block_need_of_def DataProxy_resize_def [THEN fun_cong]
  get_data_block_def [THEN fun_cong] resize_apply

lemmas exec_io =
  memcpy_from_def [THEN fun_cong] memcpy_to_def [THEN fun_cong] bytes_to_read_def
  read_loop.simps write_loop.simps
  DataProxy_read_def [THEN fun_cong] DataProxy_write_def [THEN fun_cong]

lemmas exec_dir =
  Item_bytes_def Item_of_bytes_def c_str_def name_eq_def
  DirectoryProxy_length_def [THEN fun_cong] DirectoryProxy_set_def [THEN fun_cong]
  DirectoryProxy_get_def [THEN fun_cong] DirectoryProxy_push_def [THEN fun_cong]
  DirectoryProxy_erase_def [THEN fun_cong]
  find_from_def find_first_not_of_def find_last_of_def substr_to_def substr_after_def
  split_loop.simps split_path_def get_file_loop.simps get_file_in_inode_def [THEN fun_cong]
  walk_apply get_inode_from_path_def [THEN fun_cong]

lemmas exec_ops =
  make_node_def [THEN fun_cong] delete_loop.simps delete_node_def [THEN fun_cong]
  fs_mknod_def [THEN fun_cong] fs_mkdir_def [THEN fun_cong] fs_rmdir_def [THEN fun_cong]
  fs_unlink_def [THEN fun_cong] fs_open_def [THEN fun_cong] fs_read_def [THEN fun_cong]
  fs_write_def [THEN fun_cong] fs_truncate_def [THEN fun_cong]
  mkfs_def [THEN fun_cong] Disk_mkfs_def [THEN fun_cong] mkfs_bitmaps_apply
  HeaderBlock_new_lab lab_device_def alloc_many_apply

lemmas exec = exec_consts exec_monad exec_alloc exec_extent exec_io exec_dir exec_ops

section \<open>The allocator\<close>

subsection \<open>Bits of a bitmap block\<close>

lemma get_iff_bit: "BitmapBlock_get d p \<longleftrightarrow> bit (d (p div 64)) (p mod 64)"
  unfolding BitmapBlock_get_def
  by (simp add: push_bit_of_1 and_exp_eq_0_iff_not_bit)

lemma not_zero_iff: "NOT (w :: 64 word) \<noteq> 0 \<longleftrightarrow> (\<exists>i<64. \<not> bit w i)"
proof
  assume "NOT w \<noteq> 0"
  have "\<exists>i<64. bit (NOT w) i"
  proof (rule ccontr)
    assume "\<not> (\<exists>i<64. bit (NOT w) i)"
    then have "NOT w = 0"
      by (intro bit_word_eqI) auto
    with \<open>NOT w \<noteq> 0\<close> show False by simp
  qed
  then show "\<exists>i<64. \<not> bit w i"
    by (auto simp: bit_not_iff)
next
  assume "\<exists>i<64. \<not> bit w i"
  then obtain i where "i < 64" "\<not> bit w i" by blast
  then have "bit (NOT w) i" by (simp add: bit_not_iff)
  then show "NOT w \<noteq> 0" by auto
qed

lemma find_upt_Some:
  "find P [i..<n] = Some k \<longleftrightarrow> i \<le> k \<and> k < n \<and> P k \<and> (\<forall>j. i \<le> j \<and> j < k \<longrightarrow> \<not> P j)"
proof (induction "n - i" arbitrary: i)
  case 0
  then show ?case by auto
next
  case (Suc d)
  then have lt: "i < n" and d: "d = n - Suc i" by auto
  show ?case
  proof (cases "P i")
    case True
    then show ?thesis using lt by (auto simp: upt_conv_Cons)
  next
    case False
    have "find P [i..<n] = find P [Suc i..<n]"
      using lt False by (simp add: upt_conv_Cons)
    also have "\<dots> = Some k \<longleftrightarrow> Suc i \<le> k \<and> k < n \<and> P k \<and> (\<forall>j. Suc i \<le> j \<and> j < k \<longrightarrow> \<not> P j)"
      using Suc(1)[OF d] .
    finally show ?thesis
      using False by (metis Suc_leD Suc_leI le_neq_implies_less)
  qed
qed

lemma find_upt_None: "find P [i..<n] = None \<longleftrightarrow> (\<forall>j. i \<le> j \<and> j < n \<longrightarrow> \<not> P j)"
  by (auto simp: find_None_iff)

lemma ffsll_not:
  assumes "NOT (w :: 64 word) \<noteq> 0"
  shows "ffsll (NOT w) - 1 < 64 \<and> \<not> bit w (ffsll (NOT w) - 1)
         \<and> (\<forall>j < ffsll (NOT w) - 1. bit w j)"
proof -
  from assms obtain i where i: "i < 64" "\<not> bit w i" by (auto simp: not_zero_iff)
  then have "find (bit (NOT w)) [0..<64] \<noteq> None"
    by (auto simp: find_upt_None bit_not_iff)
  then obtain k where k: "find (bit (NOT w)) [0..<64] = Some k" by auto
  then have "k < 64" "bit (NOT w) k" "\<forall>j<k. \<not> bit (NOT w) j"
    by (auto simp: find_upt_Some)
  then have "k < 64 \<and> \<not> bit w k \<and> (\<forall>j<k. bit w j)"
    by (auto simp: bit_not_iff)
  then show ?thesis using k by (simp add: ffsll_def)
qed

lemma word_pos: "j < 64 \<Longrightarrow> (k * 64 + j) div 64 = k \<and> (k * 64 + j) mod 64 = (j::nat)"
  by simp

lemma word_pos_between:
  assumes "64 * k \<le> q" "q < k * 64 + (j::nat)" "j \<le> 64"
  shows "q div 64 = k \<and> q mod 64 < j"
proof -
  obtain r where r: "q = k * 64 + r" "r < j"
    using assms by (metis add.commute le_Suc_ex mult.commute nat_add_left_cancel_less)
  then have "r < 64" using assms by simp
  then show ?thesis using r by simp
qed

lemma scan_word_set:
  assumes "\<forall>i<64. bit (d k) i" "64 * k \<le> q" "q < 64 * (k + 1)"
  shows "BitmapBlock_get d q"
proof -
  have "q div 64 = k \<and> q mod 64 < 64"
    using word_pos_between[of k q 64] assms by (simp add: mult.commute)
  then show ?thesis using assms(1) by (simp add: get_iff_bit)
qed

lemma scan_Some:
  "BitmapBlock_scan d k = Some p \<Longrightarrow>
     64 * k \<le> p \<and> p < siz \<and> \<not> BitmapBlock_get d p
     \<and> (\<forall>q. 64 * k \<le> q \<and> q < p \<longrightarrow> BitmapBlock_get d q)"
proof (induction d k rule: BitmapBlock_scan.induct)
  case (1 d k)
  show ?case
  proof (cases "k < BLOCK_SIZE div 8")
    case False
    then show ?thesis using 1(2) by (subst (asm) BitmapBlock_scan.simps) simp
  next
    case lt: True
    then have k512: "k < 512" by (simp add: BLOCK_SIZE_def)
    show ?thesis
    proof (cases "NOT (d k) \<noteq> 0")
      case True
      define j where "j = ffsll (NOT (d k)) - 1"
      from ffsll_not[OF True] have j: "j < 64" "\<not> bit (d k) j" "\<forall>i < j. bit (d k) i"
        by (auto simp: j_def)
      from 1(2) lt True have p: "p = k * 64 + j"
        by (subst (asm) BitmapBlock_scan.simps) (simp add: j_def)
      have pj: "p div 64 = k" "p mod 64 = j" using j(1) p word_pos by auto
      have c1: "64 * k \<le> p" using p by simp
      have c2: "p < siz" using p j(1) k512 by (simp add: siz_def BLOCK_SIZE_def)
      have c3: "\<not> BitmapBlock_get d p" using pj j(2) by (simp add: get_iff_bit)
      have c4: "\<forall>q. 64 * k \<le> q \<and> q < p \<longrightarrow> BitmapBlock_get d q"
      proof (intro allI impI)
        fix q assume "64 * k \<le> q \<and> q < p"
        then have "q div 64 = k \<and> q mod 64 < j"
          using word_pos_between[of k q j] j(1) p by simp
        then show "BitmapBlock_get d q" using j(3) by (simp add: get_iff_bit)
      qed
      show ?thesis using c1 c2 c3 c4 by blast
    next
      case False
      then have all: "\<forall>i<64. bit (d k) i" by (simp add: not_zero_iff)
      from 1(2) lt False have "BitmapBlock_scan d (k + 1) = Some p"
        by (subst (asm) BitmapBlock_scan.simps) simp
      from 1(1)[OF lt _ this] False
      have ih: "64 * (k + 1) \<le> p" "p < siz" "\<not> BitmapBlock_get d p"
        "\<forall>q. 64 * (k + 1) \<le> q \<and> q < p \<longrightarrow> BitmapBlock_get d q" by auto
      have c4: "\<forall>q. 64 * k \<le> q \<and> q < p \<longrightarrow> BitmapBlock_get d q"
      proof (intro allI impI)
        fix q assume q: "64 * k \<le> q \<and> q < p"
        show "BitmapBlock_get d q"
        proof (cases "q < 64 * (k + 1)")
          case True
          then show ?thesis using scan_word_set[of d k q] all q by blast
        next
          case False
          then show ?thesis using ih(4) q by simp
        qed
      qed
      have "64 * k \<le> p" using ih(1) by simp
      then show ?thesis using ih(2,3) c4 by blast
    qed
  qed
qed

lemma scan_None:
  "BitmapBlock_scan d k = None \<Longrightarrow> (\<forall>q. 64 * k \<le> q \<and> q < siz \<longrightarrow> BitmapBlock_get d q)"
proof (induction d k rule: BitmapBlock_scan.induct)
  case (1 d k)
  show ?case
  proof (cases "k < BLOCK_SIZE div 8")
    case False
    then have "siz \<le> 64 * k" by (simp add: siz_def BLOCK_SIZE_def)
    then show ?thesis by auto
  next
    case lt: True
    from 1(2) lt have z: "\<not> NOT (d k) \<noteq> 0"
      by (subst (asm) BitmapBlock_scan.simps) (auto split: if_splits)
    then have all: "\<forall>i<64. bit (d k) i" by (simp add: not_zero_iff)
    from 1(2) lt z have "BitmapBlock_scan d (k + 1) = None"
      by (subst (asm) BitmapBlock_scan.simps) simp
    from 1(1)[OF lt z this] have ih: "\<forall>q. 64 * (k + 1) \<le> q \<and> q < siz \<longrightarrow> BitmapBlock_get d q" .
    show ?thesis
    proof (intro allI impI)
      fix q assume q: "64 * k \<le> q \<and> q < siz"
      show "BitmapBlock_get d q"
      proof (cases "q < 64 * (k + 1)")
        case True
        then show ?thesis using scan_word_set[of d k q] all q by blast
      next
        case False
        then show ?thesis using ih q by simp
      qed
    qed
  qed
qed

subsection \<open>Set, clear and the first-zero scan\<close>

lemma get_set: "BitmapBlock_get (BitmapBlock_set w a) b \<longleftrightarrow> b = a \<or> BitmapBlock_get w b"
proof (cases "b div 64 = a div 64")
  case True
  have "a mod 64 < 64" by simp
  then have "bit (w (a div 64) OR push_bit (a mod 64) 1) (b mod 64)
        \<longleftrightarrow> b mod 64 = a mod 64 \<or> bit (w (a div 64)) (b mod 64)"
    by (auto simp: bit_or_iff bit_push_bit_iff bit_1_iff bit_exp_iff)
  moreover have "b = a \<longleftrightarrow> b mod 64 = a mod 64"
    using True by (metis div_mult_mod_eq)
  ultimately show ?thesis using True by (simp add: get_iff_bit BitmapBlock_set_def)
next
  case False
  then have "b \<noteq> a" by auto
  then show ?thesis using False by (simp add: get_iff_bit BitmapBlock_set_def)
qed

lemma get_clear: "BitmapBlock_get (BitmapBlock_clear w a) b \<longleftrightarrow> b \<noteq> a \<and> BitmapBlock_get w b"
proof (cases "b div 64 = a div 64")
  case True
  have "a mod 64 < 64" by simp
  then have "bit (w (a div 64) AND NOT (push_bit (a mod 64) 1)) (b mod 64)
        \<longleftrightarrow> b mod 64 \<noteq> a mod 64 \<and> bit (w (a div 64)) (b mod 64)"
    by (auto simp: bit_and_iff bit_not_iff bit_push_bit_iff bit_1_iff bit_exp_iff dest: bit_imp_le_length)
  moreover have "b = a \<longleftrightarrow> b mod 64 = a mod 64"
    using True by (metis div_mult_mod_eq)
  ultimately show ?thesis using True by (simp add: get_iff_bit BitmapBlock_clear_def)
next
  case False
  then have "b \<noteq> a" by auto
  then show ?thesis using False by (simp add: get_iff_bit BitmapBlock_clear_def)
qed

lemma BitMap_get_run:
  assumes "pos div siz + start bm < BLOCK_NUM s" "disk s (pos div siz + start bm) = Bitmap w"
  shows "BitMap_get bm pos s = (Inr (BitmapBlock_get w (pos mod siz)), s)"
  using assms by (simp add: BitMap_get_def bindM_apply load_Bitmap_apply returnM_apply)

lemma BitMap_set_run:
  assumes "pos div siz + start bm < BLOCK_NUM s" "disk s (pos div siz + start bm) = Bitmap w"
  shows "BitMap_set bm pos s =
    (Inr (), s\<lparr> disk := (disk s)(pos div siz + start bm := Bitmap (BitmapBlock_set w (pos mod siz))),
                 writes := writes s @ [(pos div siz + start bm, Bitmap (BitmapBlock_set w (pos mod siz)))] \<rparr>)"
  using assms by (simp add: BitMap_set_def bindM_apply load_Bitmap_apply commit_apply)

lemma BitMap_clear_run:
  assumes "pos div siz + start bm < BLOCK_NUM s" "disk s (pos div siz + start bm) = Bitmap w"
  shows "BitMap_clear bm pos s =
    (Inr (), s\<lparr> disk := (disk s)(pos div siz + start bm := Bitmap (BitmapBlock_clear w (pos mod siz))),
                 writes := writes s @ [(pos div siz + start bm, Bitmap (BitmapBlock_clear w (pos mod siz)))] \<rparr>)"
  using assms by (simp add: BitMap_clear_def bindM_apply load_Bitmap_apply commit_apply)

lemma siz_pos: "0 < siz" by (simp add: siz_def BLOCK_SIZE_def)

lemma BitMap_scan_spec:
  assumes "bitmap_blocks s st en" "pos = st + blockno" "off < siz"
  shows "\<exists>r. BitMap_scan en pos blockno off s = (Inr r, s) \<and>
     (case r of
        Some g \<Rightarrow> blockno * siz + 64 * (off div 64) \<le> g \<and> g < (en - st) * siz
                  \<and> \<not> bitmap_bit s st g
                  \<and> (\<forall>q. blockno * siz + 64 * (off div 64) \<le> q \<and> q < g \<longrightarrow> bitmap_bit s st q)
      | None \<Rightarrow> (\<forall>q. blockno * siz + 64 * (off div 64) \<le> q \<and> q < (en - st) * siz
                     \<longrightarrow> bitmap_bit s st q))"
  using assms
proof (induction en pos blockno off s rule: BitMap_scan.induct)
  case (1 e pos blockno off s)
  show ?case
  proof (cases "pos < e")
    case False
    then have "e - st \<le> blockno" using 1(3) by arith
    then have le: "(e - st) * siz \<le> blockno * siz" by (rule mult_le_mono1)
    have "\<forall>q. blockno * siz + 64 * (off div 64) \<le> q \<and> q < (e - st) * siz \<longrightarrow> bitmap_bit s st q"
    proof (intro allI impI)
      fix q assume "blockno * siz + 64 * (off div 64) \<le> q \<and> q < (e - st) * siz"
      with le have False by linarith
      then show "bitmap_bit s st q" ..
    qed
    moreover have "BitMap_scan e pos blockno off s = (Inr None, s)"
      using False by (subst BitMap_scan.simps) simp
    ultimately show ?thesis by simp
  next
    case lt: True
    have "st \<le> pos" using 1(3) by simp
    then obtain w where w0: "disk s pos = Bitmap w"
      using 1(2) lt unfolding bitmap_blocks_def by blast
    have "pos < BLOCK_NUM s" using 1(2) lt unfolding bitmap_blocks_def by simp
    note w = w0 this
    then have ld: "load_Bitmap pos s = (Inr w, s)" by (simp add: load_Bitmap_apply)
    have blk: "\<And>q. q div siz = blockno \<Longrightarrow> bitmap_bit s st q = BitmapBlock_get w (q mod siz)"
      using w 1(3) by (simp add: bitmap_bit_def add.commute)
    have bn: "(blockno + 1) * siz \<le> (e - st) * siz" using lt 1(3) by (intro mult_le_mono1) simp
    show ?thesis
    proof (cases "BitmapBlock_get_first_zero w off")
      case (Some r0)
      then have r0: "64 * (off div 64) \<le> r0" "r0 < siz" "\<not> BitmapBlock_get w r0"
        "\<forall>q. 64 * (off div 64) \<le> q \<and> q < r0 \<longrightarrow> BitmapBlock_get w q"
        using scan_Some[of w "off div 64" r0] by (auto simp: BitmapBlock_get_first_zero_def)
      have eq: "BitMap_scan e pos blockno off s = (Inr (Some (r0 + blockno * siz)), s)"
        using lt ld Some by (subst BitMap_scan.simps) simp
      have dm: "(r0 + blockno * siz) div siz = blockno" "(r0 + blockno * siz) mod siz = r0"
        using r0(2) by auto
      have c1: "blockno * siz + 64 * (off div 64) \<le> r0 + blockno * siz" using r0(1) by simp
      have c2: "r0 + blockno * siz < (e - st) * siz" using bn r0(2) by simp
      have c3: "\<not> bitmap_bit s st (r0 + blockno * siz)" using blk dm r0(3) by simp
      have c4: "\<forall>q. blockno * siz + 64 * (off div 64) \<le> q \<and> q < r0 + blockno * siz \<longrightarrow> bitmap_bit s st q"
      proof (intro allI impI)
        fix q assume q: "blockno * siz + 64 * (off div 64) \<le> q \<and> q < r0 + blockno * siz"
        then obtain t where t: "q = blockno * siz + t"
          by (metis le_Suc_ex add.assoc)
        then have "64 * (off div 64) \<le> t" "t < r0" using q by auto
        moreover have "q div siz = blockno" "q mod siz = t" using t \<open>t < r0\<close> r0(2) by auto
        ultimately show "bitmap_bit s st q" using blk r0(4) by simp
      qed
      show ?thesis using eq c1 c2 c3 c4 by simp
    next
      case None
      then have all: "\<forall>q. 64 * (off div 64) \<le> q \<and> q < siz \<longrightarrow> BitmapBlock_get w q"
        using scan_None[of w "off div 64"] by (auto simp: BitmapBlock_get_first_zero_def)
      have eq: "BitMap_scan e pos blockno off s = BitMap_scan e (pos + 1) (blockno + 1) 0 s"
        using lt ld None by (subst BitMap_scan.simps) simp
      have first: "\<And>q. blockno * siz + 64 * (off div 64) \<le> q \<Longrightarrow> q < (blockno + 1) * siz \<Longrightarrow> bitmap_bit s st q"
      proof -
        fix q assume q: "blockno * siz + 64 * (off div 64) \<le> q" "q < (blockno + 1) * siz"
        then obtain t where t: "q = blockno * siz + t"
          by (metis le_Suc_ex add.assoc)
        then have tt: "64 * (off div 64) \<le> t" "t < siz" using q by auto
        moreover have "q div siz = blockno" "q mod siz = t" using t tt by auto
        ultimately show "bitmap_bit s st q" using blk all by simp
      qed
      from 1(1)[OF lt ld[symmetric] refl None 1(2)] 1(3) siz_pos
      obtain r where r: "BitMap_scan e (pos + 1) (blockno + 1) 0 s = (Inr r, s)"
        "(case r of
        Some g \<Rightarrow> (blockno + 1) * siz + 64 * (0 div 64) \<le> g \<and> g < (e - st) * siz
                  \<and> \<not> bitmap_bit s st g
                  \<and> (\<forall>q. (blockno + 1) * siz + 64 * (0 div 64) \<le> q \<and> q < g \<longrightarrow> bitmap_bit s st q)
      | None \<Rightarrow> (\<forall>q. (blockno + 1) * siz + 64 * (0 div 64) \<le> q \<and> q < (e - st) * siz
                     \<longrightarrow> bitmap_bit s st q))"
        by auto
      show ?thesis
      proof (cases r)
        case None
        then have "\<forall>q. (blockno + 1) * siz \<le> q \<and> q < (e - st) * siz \<longrightarrow> bitmap_bit s st q"
          using r(2) by simp
        then have "\<forall>q. blockno * siz + 64 * (off div 64) \<le> q \<and> q < (e - st) * siz \<longrightarrow> bitmap_bit s st q"
          using first by (metis not_less)
        then show ?thesis using eq r(1) None by simp
      next
        case (Some g)
        then have g: "(blockno + 1) * siz \<le> g" "g < (e - st) * siz" "\<not> bitmap_bit s st g"
          "\<forall>q. (blockno + 1) * siz \<le> q \<and> q < g \<longrightarrow> bitmap_bit s st q"
          using r(2) by auto
        have "off div 64 * 64 \<le> off" by simp
        have "64 * (off div 64) \<le> off" by simp
        then have c1: "blockno * siz + 64 * (off div 64) \<le> g"
          using g(1) 1(4) by (simp add: algebra_simps)
        have c4: "\<forall>q. blockno * siz + 64 * (off div 64) \<le> q \<and> q < g \<longrightarrow> bitmap_bit s st q"
          using first g(4) by (metis not_less)
        show ?thesis using eq r(1) Some c1 g(2,3) c4 by simp
      qed
    qed
  qed
qed

lemma lowest_clear_unique: "lowest_clear s st en r \<Longrightarrow> lowest_clear s st en r' \<Longrightarrow> r = r'"
  unfolding lowest_clear_def
  by (cases r; cases r') (auto, metis linorder_neqE_nat)

lemma hint_floor: "(hint div siz) * siz + 64 * ((hint mod siz) div 64) \<le> hint"
proof -
  have "64 * ((hint mod siz) div 64) \<le> hint mod siz" by simp
  moreover have "(hint div siz) * siz + hint mod siz = hint" by simp
  ultimately show ?thesis by linarith
qed

lemma first_zero_spec:
  assumes "bitmap_blocks s st en" "\<forall>p. p < hint \<longrightarrow> bitmap_bit s st p"
  shows "\<exists>r. BitMap_get_first_zero \<lparr> minpos = hint, start = st, end' = en \<rparr> s = (Inr r, s)
             \<and> lowest_clear s st en r"
proof -
  let ?L = "(hint div siz) * siz + 64 * ((hint mod siz) div 64)"
  have "hint mod siz < siz" using siz_pos by simp
  from BitMap_scan_spec[OF assms(1) refl this, of "hint div siz"]
  obtain r where r: "BitMap_scan en (st + hint div siz) (hint div siz) (hint mod siz) s = (Inr r, s)"
    "(case r of
        Some g \<Rightarrow> ?L \<le> g \<and> g < (en - st) * siz \<and> \<not> bitmap_bit s st g
                  \<and> (\<forall>q. ?L \<le> q \<and> q < g \<longrightarrow> bitmap_bit s st q)
      | None \<Rightarrow> (\<forall>q. ?L \<le> q \<and> q < (en - st) * siz \<longrightarrow> bitmap_bit s st q))"
    by blast
  have low: "\<And>q. q < ?L \<Longrightarrow> bitmap_bit s st q"
    using assms(2) hint_floor[of hint] by (meson le_trans not_less less_le_trans)
  have "lowest_clear s st en r"
  proof (cases r)
    case None
    then show ?thesis using r(2) low unfolding lowest_clear_def by (auto simp: not_less) (metis not_less)
  next
    case (Some g)
    then show ?thesis using r(2) low unfolding lowest_clear_def by (auto simp: not_less) (metis not_less)
  qed
  then show ?thesis using r(1) by (simp add: BitMap_get_first_zero_def)
qed

lemma same_block_eq: "q div siz = p div siz \<Longrightarrow> (q = p) = (q mod siz = p mod siz)"
  by (metis div_mult_mod_eq)

lemma bitmap_bit_set:
  assumes "disk s (p div siz + st) = Bitmap w"
    "disk s' = (disk s)(p div siz + st := Bitmap (BitmapBlock_set w (p mod siz)), 0 := X)" "0 < st"
  shows "bitmap_bit s' st q = (q = p \<or> bitmap_bit s st q)"
proof (cases "q div siz = p div siz")
  case True
  then show ?thesis using assms same_block_eq[OF True]
    by (simp add: bitmap_bit_def get_set)
next
  case False
  then have "q \<noteq> p" by auto
  then show ?thesis using assms False by (simp add: bitmap_bit_def)
qed

lemma bitmap_bit_clear:
  assumes "disk s (p div siz + st) = Bitmap w"
    "disk s' = (disk s)(p div siz + st := Bitmap (BitmapBlock_clear w (p mod siz)), 0 := X)" "0 < st"
  shows "bitmap_bit s' st q = (q \<noteq> p \<and> bitmap_bit s st q)"
proof (cases "q div siz = p div siz")
  case True
  then show ?thesis using assms same_block_eq[OF True]
    by (simp add: bitmap_bit_def get_clear)
next
  case False
  then have "q \<noteq> p" by auto
  then show ?thesis using assms False by (simp add: bitmap_bit_def)
qed

lemma block_in_range: "q < (en - st) * siz \<Longrightarrow> st \<le> q div siz + st \<and> q div siz + st < en"
proof -
  assume "q < (en - st) * siz"
  then have "q div siz < en - st" using siz_pos by (simp add: less_mult_imp_div_less)
  then show ?thesis by arith
qed

lemma bitmap_bit_other:
  assumes "disk s' = (disk s)(blk := B, 0 := X)" "0 < st2" "blk < st2 \<or> en2 \<le> blk"
    "q < (en2 - st2) * siz"
  shows "bitmap_bit s' st2 q = bitmap_bit s st2 q"
proof -
  from block_in_range[OF assms(4)] have "q div siz + st2 \<noteq> blk" "q div siz + st2 \<noteq> 0"
    using assms(2,3) by auto
  then have "disk s' (q div siz + st2) = disk s (q div siz + st2)"
    using assms(1,2) by auto
  then show ?thesis by (simp add: bitmap_bit_def)
qed

lemma bitmap_blocks_update:
  assumes "bitmap_blocks s st en" "disk s' = (disk s)(blk := Bitmap w', 0 := X)" "0 < st"
    "BLOCK_NUM s' = BLOCK_NUM s"
  shows "bitmap_blocks s' st en"
  using assms unfolding bitmap_blocks_def by auto

lemma bitmap_ok_other:
  assumes "bitmap_ok s st2 en2 tot2 free2 hint2" "disk s' = (disk s)(blk := Bitmap w', 0 := X)"
    "blk < st2 \<or> en2 \<le> blk" "BLOCK_NUM s' = BLOCK_NUM s"
  shows "bitmap_ok s' st2 en2 tot2 free2 hint2"
proof -
  from assms(1) have st: "0 < st2" "tot2 \<le> (en2 - st2) * siz" "hint2 \<le> tot2"
    unfolding bitmap_ok_def by auto
  have same: "\<And>q. q < (en2 - st2) * siz \<Longrightarrow> bitmap_bit s' st2 q = bitmap_bit s st2 q"
    using bitmap_bit_other[OF assms(2) st(1) assms(3)] by simp
  have blocks: "bitmap_blocks s' st2 en2"
    using assms(1) bitmap_blocks_update[OF _ assms(2) st(1) assms(4)] unfolding bitmap_ok_def by blast
  have set_eq: "{p. p < tot2 \<and> \<not> bitmap_bit s' st2 p} = {p. p < tot2 \<and> \<not> bitmap_bit s st2 p}"
    using same st(2) by auto
  show ?thesis
    using assms(1) blocks st same unfolding bitmap_ok_def set_eq by auto
qed

lemma clear_set_finite: "finite {p. p < tot \<and> \<not> bitmap_bit s st (p::nat)}"
  by simp

lemma bitmap_ok_set:
  assumes ok: "bitmap_ok s st en tot free hint" and low: "lowest_clear s st en (Some p)"
    and nz: "free \<noteq> 0" and w: "disk s (p div siz + st) = Bitmap w"
    and d': "disk s' = (disk s)(p div siz + st := Bitmap (BitmapBlock_set w (p mod siz)), 0 := X)"
    and bn: "BLOCK_NUM s' = BLOCK_NUM s"
  shows "bitmap_ok s' st en tot (free - 1) (max hint p)" "p < tot"
proof -
  from ok have st: "0 < st" "st \<le> en" "tot \<le> (en - st) * siz" "hint \<le> tot" "tot < 2 ^ 32"
    and blocks: "bitmap_blocks s st en"
    and beyond: "\<forall>q. tot \<le> q \<and> q < (en - st) * siz \<longrightarrow> \<not> bitmap_bit s st q"
    and hint: "\<forall>q. q < hint \<longrightarrow> bitmap_bit s st q"
    and cnt: "free = card {q. q < tot \<and> \<not> bitmap_bit s st q}"
    unfolding bitmap_ok_def by auto
  from low have p: "p < (en - st) * siz" "\<not> bitmap_bit s st p" "\<forall>q. q < p \<longrightarrow> bitmap_bit s st q"
    unfolding lowest_clear_def by auto
  from nz cnt have "{q. q < tot \<and> \<not> bitmap_bit s st q} \<noteq> {}"
    by (metis card.empty)
  then obtain q0 where q0: "q0 < tot" "\<not> bitmap_bit s st q0" by blast
  then have "p \<le> q0" using p(3) by (meson not_less)
  then show pt: "p < tot" using q0(1) by simp
  have bit': "\<And>q. bitmap_bit s' st q = (q = p \<or> bitmap_bit s st q)"
    using bitmap_bit_set[OF w d' st(1)] by simp
  have blocks': "bitmap_blocks s' st en"
    using bitmap_blocks_update[OF blocks d' st(1) bn] .
  have set_eq: "{q. q < tot \<and> \<not> bitmap_bit s' st q} = {q. q < tot \<and> \<not> bitmap_bit s st q} - {p}"
    using bit' by auto
  have mem: "p \<in> {q. q < tot \<and> \<not> bitmap_bit s st q}" using pt p(2) by simp
  have cnt': "free - 1 = card {q. q < tot \<and> \<not> bitmap_bit s' st q}"
    unfolding set_eq using cnt mem by (simp add: card_Diff_singleton)
  have hint': "\<forall>q. q < max hint p \<longrightarrow> bitmap_bit s' st q"
    using hint p(3) bit' by (auto simp: max_def)
  have beyond': "\<forall>q. tot \<le> q \<and> q < (en - st) * siz \<longrightarrow> \<not> bitmap_bit s' st q"
    using beyond bit' pt by auto
  show "bitmap_ok s' st en tot (free - 1) (max hint p)"
    unfolding bitmap_ok_def using st blocks' beyond' hint' cnt' pt by auto
qed

lemma bitmap_ok_clear:
  assumes ok: "bitmap_ok s st en tot free hint" and pt: "p < tot" and setp: "bitmap_bit s st p"
    and w: "disk s (p div siz + st) = Bitmap w"
    and d': "disk s' = (disk s)(p div siz + st := Bitmap (BitmapBlock_clear w (p mod siz)), 0 := X)"
    and bn: "BLOCK_NUM s' = BLOCK_NUM s"
  shows "bitmap_ok s' st en tot (free + 1) (min hint p)" "free + 1 \<le> tot"
proof -
  from ok have st: "0 < st" "st \<le> en" "tot \<le> (en - st) * siz" "hint \<le> tot" "tot < 2 ^ 32"
    and blocks: "bitmap_blocks s st en"
    and beyond: "\<forall>q. tot \<le> q \<and> q < (en - st) * siz \<longrightarrow> \<not> bitmap_bit s st q"
    and hint: "\<forall>q. q < hint \<longrightarrow> bitmap_bit s st q"
    and cnt: "free = card {q. q < tot \<and> \<not> bitmap_bit s st q}"
    unfolding bitmap_ok_def by auto
  have bit': "\<And>q. bitmap_bit s' st q = (q \<noteq> p \<and> bitmap_bit s st q)"
    using bitmap_bit_clear[OF w d' st(1)] by simp
  have blocks': "bitmap_blocks s' st en"
    using bitmap_blocks_update[OF blocks d' st(1) bn] .
  have set_eq: "{q. q < tot \<and> \<not> bitmap_bit s' st q} = insert p {q. q < tot \<and> \<not> bitmap_bit s st q}"
    using bit' pt by auto
  have nmem: "p \<notin> {q. q < tot \<and> \<not> bitmap_bit s st q}" using setp by simp
  have cnt': "free + 1 = card {q. q < tot \<and> \<not> bitmap_bit s' st q}"
    unfolding set_eq using cnt nmem by simp
  have sub: "{q. q < tot \<and> \<not> bitmap_bit s' st q} \<subseteq> {..<tot}" by auto
  have "card {q. q < tot \<and> \<not> bitmap_bit s' st q} \<le> card {..<tot}"
    by (rule card_mono[OF _ sub]) simp
  then show "free + 1 \<le> tot" using cnt' by simp
  have hint': "\<forall>q. q < min hint p \<longrightarrow> bitmap_bit s' st q"
    using hint bit' by auto
  have beyond': "\<forall>q. tot \<le> q \<and> q < (en - st) * siz \<longrightarrow> \<not> bitmap_bit s' st q"
    using beyond bit' by auto
  show "bitmap_ok s' st en tot (free + 1) (min hint p)"
    unfolding bitmap_ok_def using st blocks' beyond' hint' cnt' by auto
qed

subsection \<open>The four operations\<close>

lemma alloc_inv_header:
  assumes "alloc_inv s" "disk s 0 = Header h"
  shows "bitmap_ok s (inode_bitmap_offset h) (data_block_bitmap_offset h)
             (inode_num_tot h) (inode_num_free h) (inode_bitmap_min_pos s)"
    "bitmap_ok s (data_block_bitmap_offset h) (inode_block_offset h)
             (data_block_num_tot h) (data_block_num_free h) (data_bitmap_min_pos s)"
    "get_header s = (Inr h, s)"
proof -
  from assms show a: "bitmap_ok s (inode_bitmap_offset h) (data_block_bitmap_offset h)
             (inode_num_tot h) (inode_num_free h) (inode_bitmap_min_pos s)"
    and "bitmap_ok s (data_block_bitmap_offset h) (inode_block_offset h)
             (data_block_num_tot h) (data_block_num_free h) (data_bitmap_min_pos s)"
    unfolding alloc_inv_def by auto
  then have "0 < BLOCK_NUM s" unfolding bitmap_ok_def bitmap_blocks_def by auto
  then show "get_header s = (Inr h, s)"
    using assms(2) by (simp add: get_header_def load_Header_apply)
qed

lemma found_block:
  assumes "bitmap_blocks s st en" "p < (en - st) * siz"
  shows "\<exists>w. disk s (p div siz + st) = Bitmap w \<and> p div siz + st < BLOCK_NUM s"
  using assms block_in_range[OF assms(2)] unfolding bitmap_blocks_def
  by (meson less_le_trans)

lemma no_clear_card:
  assumes "\<forall>q. q < (en - st) * siz \<longrightarrow> bitmap_bit s st q" "tot \<le> (en - st) * siz"
  shows "card {p. p < tot \<and> \<not> bitmap_bit s st p} = 0"
proof -
  have "{p. p < tot \<and> \<not> bitmap_bit s st p} = {}" using assms by auto
  then show ?thesis by simp
qed

lemma alloc_inode_spec:
  assumes inv: "alloc_inv s" and h: "disk s 0 = Header h"
  shows "if inode_num_free h = 0 then alloc_inode s = (Inr None, s)
         else (\<exists>p w s'. alloc_inode s = (Inr (Some p), s')
                \<and> lowest_clear s (inode_bitmap_offset h) (data_block_bitmap_offset h) (Some p)
                \<and> p < inode_num_tot h
                \<and> disk s (p div siz + inode_bitmap_offset h) = Bitmap w
                \<and> disk s' = (disk s)(p div siz + inode_bitmap_offset h := Bitmap (BitmapBlock_set w (p mod siz)),
                                     0 := Header (h\<lparr> inode_num_free := inode_num_free h - 1 \<rparr>))
                \<and> writes s' = writes s @ [(p div siz + inode_bitmap_offset h, Bitmap (BitmapBlock_set w (p mod siz))),
                                          (0, Header (h\<lparr> inode_num_free := inode_num_free h - 1 \<rparr>))]
                \<and> BLOCK_NUM s' = BLOCK_NUM s \<and> clock s' = clock s
                \<and> inode_bitmap_min_pos s' = max (inode_bitmap_min_pos s) p
                \<and> data_bitmap_min_pos s' = data_bitmap_min_pos s)"
proof (cases "inode_num_free h = 0")
  case True
  then show ?thesis
    using alloc_inv_header(3)[OF inv h] by (simp add: alloc_inode_def bindM_apply returnM_apply)
next
  case False
  let ?st = "inode_bitmap_offset h" and ?en = "data_block_bitmap_offset h"
  note ok = alloc_inv_header(1)[OF inv h]
  then have blocks: "bitmap_blocks s ?st ?en"
    and hint: "\<forall>p. p < inode_bitmap_min_pos s \<longrightarrow> bitmap_bit s ?st p"
    and tot: "inode_num_tot h \<le> (?en - ?st) * siz"
    and cnt: "inode_num_free h = card {p. p < inode_num_tot h \<and> \<not> bitmap_bit s ?st p}"
    unfolding bitmap_ok_def by auto
  from first_zero_spec[OF blocks hint]
  obtain r where r: "BitMap_get_first_zero \<lparr> minpos = inode_bitmap_min_pos s, start = ?st, end' = ?en \<rparr> s = (Inr r, s)"
    "lowest_clear s ?st ?en r" by blast
  have "r \<noteq> None"
  proof
    assume "r = None"
    then have "\<forall>q. q < (?en - ?st) * siz \<longrightarrow> bitmap_bit s ?st q"
      using r(2) by (simp add: lowest_clear_def)
    from no_clear_card[OF this tot] cnt False show False by simp
  qed
  then obtain p where p: "r = Some p" by auto
  then have pr: "p < (?en - ?st) * siz" using r(2) by (simp add: lowest_clear_def)
  from found_block[OF blocks pr] obtain w where w: "disk s (p div siz + ?st) = Bitmap w"
    "p div siz + ?st < BLOCK_NUM s" by blast
  define bm where "bm = \<lparr> minpos = inode_bitmap_min_pos s, start = ?st, end' = ?en \<rparr>"
  have seteq: "BitMap_set bm p s = (Inr (), s\<lparr> disk := (disk s)(p div siz + ?st := Bitmap (BitmapBlock_set w (p mod siz))),
                 writes := writes s @ [(p div siz + ?st, Bitmap (BitmapBlock_set w (p mod siz)))] \<rparr>)"
    using BitMap_set_run[of p bm s w] w by (simp add: bm_def)
  let ?s' = "s\<lparr> disk := (disk s)(p div siz + ?st := Bitmap (BitmapBlock_set w (p mod siz)),
                                     0 := Header (h\<lparr> inode_num_free := inode_num_free h - 1 \<rparr>)),
                writes := writes s @ [(p div siz + ?st, Bitmap (BitmapBlock_set w (p mod siz))),
                                          (0, Header (h\<lparr> inode_num_free := inode_num_free h - 1 \<rparr>))],
                inode_bitmap_min_pos := max (inode_bitmap_min_pos s) p \<rparr>"
  have run: "alloc_inode s = (Inr (Some p), ?s')"
    using False alloc_inv_header(3)[OF inv h] r(1) p seteq
    by (simp add: alloc_inode_def bindM_apply returnM_apply getsM_apply Let_def bm_def commit_apply modifyM_apply)
  from bitmap_ok_set(2)[OF ok r(2)[unfolded p] False w(1), of ?s' "Header (h\<lparr> inode_num_free := inode_num_free h - 1 \<rparr>)"]
  have "p < inode_num_tot h" by simp
  then show ?thesis
    using False run r(2) p w(1) by (intro exI[of _ p] exI[of _ w] exI[of _ ?s'] | simp)+
qed

lemma alloc_data_spec:
  assumes inv: "alloc_inv s" and h: "disk s 0 = Header h"
  shows "if data_block_num_free h = 0 then alloc_data s = (Inr None, s)
         else (\<exists>p w s'. alloc_data s = (Inr (Some (p + data_block_offset h)), s')
                \<and> lowest_clear s (data_block_bitmap_offset h) (inode_block_offset h) (Some p)
                \<and> p < data_block_num_tot h
                \<and> disk s (p div siz + data_block_bitmap_offset h) = Bitmap w
                \<and> disk s' = (disk s)(p div siz + data_block_bitmap_offset h := Bitmap (BitmapBlock_set w (p mod siz)),
                                     0 := Header (h\<lparr> data_block_num_free := data_block_num_free h - 1 \<rparr>))
                \<and> writes s' = writes s @ [(p div siz + data_block_bitmap_offset h, Bitmap (BitmapBlock_set w (p mod siz))),
                                          (0, Header (h\<lparr> data_block_num_free := data_block_num_free h - 1 \<rparr>))]
                \<and> BLOCK_NUM s' = BLOCK_NUM s \<and> clock s' = clock s
                \<and> data_bitmap_min_pos s' = max (data_bitmap_min_pos s) p
                \<and> inode_bitmap_min_pos s' = inode_bitmap_min_pos s)"
proof (cases "data_block_num_free h = 0")
  case True
  then show ?thesis
    using alloc_inv_header(3)[OF inv h] by (simp add: alloc_data_def bindM_apply returnM_apply)
next
  case False
  let ?st = "data_block_bitmap_offset h" and ?en = "inode_block_offset h"
  note ok = alloc_inv_header(2)[OF inv h]
  then have blocks: "bitmap_blocks s ?st ?en"
    and hint: "\<forall>p. p < data_bitmap_min_pos s \<longrightarrow> bitmap_bit s ?st p"
    and tot: "data_block_num_tot h \<le> (?en - ?st) * siz"
    and cnt: "data_block_num_free h = card {p. p < data_block_num_tot h \<and> \<not> bitmap_bit s ?st p}"
    unfolding bitmap_ok_def by auto
  from first_zero_spec[OF blocks hint]
  obtain r where r: "BitMap_get_first_zero \<lparr> minpos = data_bitmap_min_pos s, start = ?st, end' = ?en \<rparr> s = (Inr r, s)"
    "lowest_clear s ?st ?en r" by blast
  have "r \<noteq> None"
  proof
    assume "r = None"
    then have "\<forall>q. q < (?en - ?st) * siz \<longrightarrow> bitmap_bit s ?st q"
      using r(2) by (simp add: lowest_clear_def)
    from no_clear_card[OF this tot] cnt False show False by simp
  qed
  then obtain p where p: "r = Some p" by auto
  then have pr: "p < (?en - ?st) * siz" using r(2) by (simp add: lowest_clear_def)
  from found_block[OF blocks pr] obtain w where w: "disk s (p div siz + ?st) = Bitmap w"
    "p div siz + ?st < BLOCK_NUM s" by blast
  define bm where "bm = \<lparr> minpos = data_bitmap_min_pos s, start = ?st, end' = ?en \<rparr>"
  define s1 where "s1 = s\<lparr> data_bitmap_min_pos := max (data_bitmap_min_pos s) p \<rparr>"
  have seteq: "BitMap_set bm p s1 = (Inr (), s1\<lparr> disk := (disk s1)(p div siz + ?st := Bitmap (BitmapBlock_set w (p mod siz))),
                 writes := writes s1 @ [(p div siz + ?st, Bitmap (BitmapBlock_set w (p mod siz)))] \<rparr>)"
    using BitMap_set_run[of p bm s1 w] w by (simp add: bm_def s1_def)
  let ?s' = "s\<lparr> disk := (disk s)(p div siz + ?st := Bitmap (BitmapBlock_set w (p mod siz)),
                                     0 := Header (h\<lparr> data_block_num_free := data_block_num_free h - 1 \<rparr>)),
                writes := writes s @ [(p div siz + ?st, Bitmap (BitmapBlock_set w (p mod siz))),
                                          (0, Header (h\<lparr> data_block_num_free := data_block_num_free h - 1 \<rparr>))],
                data_bitmap_min_pos := max (data_bitmap_min_pos s) p \<rparr>"
  have run: "alloc_data s = (Inr (Some (p + data_block_offset h)), ?s')"
    using False alloc_inv_header(3)[OF inv h] r(1) p seteq
    by (simp add: alloc_data_def bindM_apply returnM_apply getsM_apply Let_def bm_def commit_apply modifyM_apply s1_def)
  from bitmap_ok_set(2)[OF ok r(2)[unfolded p] False w(1), of ?s' "Header (h\<lparr> data_block_num_free := data_block_num_free h - 1 \<rparr>)"]
  have "p < data_block_num_tot h" by simp
  then show ?thesis
    using False run r(2) p w(1) by (intro exI[of _ p] exI[of _ w] exI[of _ ?s'] | simp)+
qed

lemma free_inode_spec:
  assumes inv: "alloc_inv s" and h: "disk s 0 = Header h" and n: "n < inode_num_tot h"
  shows "if bitmap_bit s (inode_bitmap_offset h) n
         then (\<exists>w s'. free_inode n s = (Inr (), s')
                \<and> disk s (n div siz + inode_bitmap_offset h) = Bitmap w
                \<and> disk s' = (disk s)(n div siz + inode_bitmap_offset h := Bitmap (BitmapBlock_clear w (n mod siz)),
                                     0 := Header (h\<lparr> inode_num_free := inode_num_free h + 1 \<rparr>))
                \<and> writes s' = writes s @ [(n div siz + inode_bitmap_offset h, Bitmap (BitmapBlock_clear w (n mod siz))),
                                          (0, Header (h\<lparr> inode_num_free := inode_num_free h + 1 \<rparr>))]
                \<and> BLOCK_NUM s' = BLOCK_NUM s \<and> clock s' = clock s
                \<and> inode_bitmap_min_pos s' = min (inode_bitmap_min_pos s) n
                \<and> data_bitmap_min_pos s' = data_bitmap_min_pos s)
         else free_inode n s = (Inl AssertionFail, s)"
proof -
  let ?st = "inode_bitmap_offset h" and ?en = "data_block_bitmap_offset h"
  note ok = alloc_inv_header(1)[OF inv h]
  then have blocks: "bitmap_blocks s ?st ?en"
    and tot: "inode_num_tot h \<le> (?en - ?st) * siz" "inode_num_tot h < 2 ^ 32"
    unfolding bitmap_ok_def by auto
  have pr: "n < (?en - ?st) * siz" using n tot by simp
  from found_block[OF blocks pr] obtain w where w: "disk s (n div siz + ?st) = Bitmap w"
    "n div siz + ?st < BLOCK_NUM s" by blast
  define bm where "bm = \<lparr> minpos = 0, start = ?st, end' = ?en \<rparr>"
  have geteq: "BitMap_get bm n s = (Inr (BitmapBlock_get w (n mod siz)), s)"
    using BitMap_get_run[of n bm s w] w by (simp add: bm_def)
  have bit: "bitmap_bit s ?st n = BitmapBlock_get w (n mod siz)"
    using w(1) by (simp add: bitmap_bit_def)
  show ?thesis
  proof (cases "bitmap_bit s ?st n")
    case False
    then show ?thesis
      using alloc_inv_header(3)[OF inv h] geteq bit
      by (simp add: free_inode_def bindM_apply Let_def bm_def assertM_apply)
  next
    case True
    have cleq: "BitMap_clear bm n s = (Inr (), s\<lparr> disk := (disk s)(n div siz + ?st := Bitmap (BitmapBlock_clear w (n mod siz))),
                 writes := writes s @ [(n div siz + ?st, Bitmap (BitmapBlock_clear w (n mod siz)))] \<rparr>)"
      using BitMap_clear_run[of n bm s w] w by (simp add: bm_def)
    let ?s' = "s\<lparr> disk := (disk s)(n div siz + ?st := Bitmap (BitmapBlock_clear w (n mod siz)),
                                     0 := Header (h\<lparr> inode_num_free := inode_num_free h + 1 \<rparr>)),
                writes := writes s @ [(n div siz + ?st, Bitmap (BitmapBlock_clear w (n mod siz))),
                                          (0, Header (h\<lparr> inode_num_free := inode_num_free h + 1 \<rparr>))],
                inode_bitmap_min_pos := min (inode_bitmap_min_pos s) n \<rparr>"
    from bitmap_ok_clear(2)[OF ok n True w(1), of ?s' "Header (h\<lparr> inode_num_free := inode_num_free h + 1 \<rparr>)"]
    have "inode_num_free h + 1 \<le> inode_num_tot h" by simp
    then have md: "(inode_num_free h + 1) mod 2 ^ 32 = inode_num_free h + 1"
      using tot(2) by simp
    have run: "free_inode n s = (Inr (), ?s')"
      using True alloc_inv_header(3)[OF inv h] geteq bit cleq md
      by (simp add: free_inode_def bindM_apply Let_def bm_def assertM_apply commit_apply modifyM_apply)
    show ?thesis
      using True run w(1) by (intro exI[of _ w] exI[of _ ?s'] | simp)+
  qed
qed

lemma free_data_spec:
  assumes inv: "alloc_inv s" and h: "disk s 0 = Header h"
    and n: "bn < data_block_offset h + data_block_num_tot h"
  shows "if data_block_offset h \<le> bn \<and> bitmap_bit s (data_block_bitmap_offset h) (bn - data_block_offset h)
         then (\<exists>w s'. free_data bn s = (Inr (), s')
                \<and> disk s ((bn - data_block_offset h) div siz + data_block_bitmap_offset h) = Bitmap w
                \<and> disk s' = (disk s)((bn - data_block_offset h) div siz + data_block_bitmap_offset h
                                         := Bitmap (BitmapBlock_clear w ((bn - data_block_offset h) mod siz)),
                                     0 := Header (h\<lparr> data_block_num_free := data_block_num_free h + 1 \<rparr>))
                \<and> writes s' = writes s @ [((bn - data_block_offset h) div siz + data_block_bitmap_offset h,
                                            Bitmap (BitmapBlock_clear w ((bn - data_block_offset h) mod siz))),
                                          (0, Header (h\<lparr> data_block_num_free := data_block_num_free h + 1 \<rparr>))]
                \<and> BLOCK_NUM s' = BLOCK_NUM s \<and> clock s' = clock s
                \<and> data_bitmap_min_pos s' = min (data_bitmap_min_pos s) (bn - data_block_offset h)
                \<and> inode_bitmap_min_pos s' = inode_bitmap_min_pos s)
         else free_data bn s = (Inl AssertionFail, s)"
proof (cases "data_block_offset h \<le> bn")
  case False
  then show ?thesis
    using alloc_inv_header(3)[OF inv h] by (simp add: free_data_def bindM_apply assertM_apply)
next
  case ge: True
  define pos where "pos = bn - data_block_offset h"
  have n': "pos < data_block_num_tot h" using n ge by (simp add: pos_def)
  let ?st = "data_block_bitmap_offset h" and ?en = "inode_block_offset h"
  note ok = alloc_inv_header(2)[OF inv h]
  then have blocks: "bitmap_blocks s ?st ?en"
    and tot: "data_block_num_tot h \<le> (?en - ?st) * siz" "data_block_num_tot h < 2 ^ 32"
    unfolding bitmap_ok_def by auto
  have pr: "pos < (?en - ?st) * siz" using n' tot by simp
  from found_block[OF blocks pr] obtain w where w: "disk s (pos div siz + ?st) = Bitmap w"
    "pos div siz + ?st < BLOCK_NUM s" by blast
  define bm where "bm = \<lparr> minpos = 0, start = ?st, end' = ?en \<rparr>"
  have geteq: "BitMap_get bm pos s = (Inr (BitmapBlock_get w (pos mod siz)), s)"
    using BitMap_get_run[of pos bm s w] w by (simp add: bm_def)
  have bit: "bitmap_bit s ?st pos = BitmapBlock_get w (pos mod siz)"
    using w(1) by (simp add: bitmap_bit_def)
  show ?thesis
  proof (cases "bitmap_bit s ?st pos")
    case False
    then show ?thesis
      using alloc_inv_header(3)[OF inv h] geteq bit ge
      by (simp add: free_data_def bindM_apply Let_def bm_def assertM_apply pos_def)
  next
    case True
    have cleq: "BitMap_clear bm pos s = (Inr (), s\<lparr> disk := (disk s)(pos div siz + ?st := Bitmap (BitmapBlock_clear w (pos mod siz))),
                 writes := writes s @ [(pos div siz + ?st, Bitmap (BitmapBlock_clear w (pos mod siz)))] \<rparr>)"
      using BitMap_clear_run[of pos bm s w] w by (simp add: bm_def)
    let ?s' = "s\<lparr> disk := (disk s)(pos div siz + ?st := Bitmap (BitmapBlock_clear w (pos mod siz)),
                                     0 := Header (h\<lparr> data_block_num_free := data_block_num_free h + 1 \<rparr>)),
                writes := writes s @ [(pos div siz + ?st, Bitmap (BitmapBlock_clear w (pos mod siz))),
                                          (0, Header (h\<lparr> data_block_num_free := data_block_num_free h + 1 \<rparr>))],
                data_bitmap_min_pos := min (data_bitmap_min_pos s) pos \<rparr>"
    from bitmap_ok_clear(2)[OF ok n' True w(1), of ?s' "Header (h\<lparr> data_block_num_free := data_block_num_free h + 1 \<rparr>)"]
    have "data_block_num_free h + 1 \<le> data_block_num_tot h" by simp
    then have md: "(data_block_num_free h + 1) mod 2 ^ 32 = data_block_num_free h + 1"
      using tot(2) by simp
    have run: "free_data bn s = (Inr (), ?s')"
      using True alloc_inv_header(3)[OF inv h] geteq bit cleq md ge
      by (simp add: free_data_def bindM_apply Let_def bm_def assertM_apply commit_apply modifyM_apply pos_def)
    show ?thesis
      using True run w(1) ge by (intro exI[of _ w] exI[of _ ?s'] | simp add: pos_def)+
  qed
qed

lemma alloc_inode_inv:
  assumes inv: "alloc_inv s" and run: "alloc_inode s = (r, s')"
  shows "alloc_inv s'"
proof -
  from inv obtain h where h: "disk s 0 = Header h" unfolding alloc_inv_def by blast
  note ok = alloc_inv_header(1,2)[OF inv h]
  show ?thesis
  proof (cases "inode_num_free h = 0")
    case True
    then show ?thesis using alloc_inode_spec[OF inv h] run inv by simp
  next
    case False
    let ?st = "inode_bitmap_offset h" and ?en = "data_block_bitmap_offset h"
    let ?h' = "h\<lparr> inode_num_free := inode_num_free h - 1 \<rparr>"
    from alloc_inode_spec[OF inv h] False run
    obtain p w where p: "lowest_clear s ?st ?en (Some p)"
      "disk s (p div siz + ?st) = Bitmap w"
      "disk s' = (disk s)(p div siz + ?st := Bitmap (BitmapBlock_set w (p mod siz)), 0 := Header ?h')"
      "BLOCK_NUM s' = BLOCK_NUM s"
      "inode_bitmap_min_pos s' = max (inode_bitmap_min_pos s) p"
      "data_bitmap_min_pos s' = data_bitmap_min_pos s"
      by auto
    have a: "bitmap_ok s' ?st ?en (inode_num_tot h) (inode_num_free h - 1) (inode_bitmap_min_pos s')"
      using bitmap_ok_set(1)[OF ok(1) p(1) False p(2) p(3) p(4)] p(5) by simp
    have "p < (?en - ?st) * siz" using p(1) by (simp add: lowest_clear_def)
    from block_in_range[OF this] have "p div siz + ?st < ?en" by simp
    then have b: "bitmap_ok s' ?en (inode_block_offset h) (data_block_num_tot h) (data_block_num_free h) (data_bitmap_min_pos s')"
      using bitmap_ok_other[OF ok(2) p(3) _ p(4)] p(6) by simp
    have "disk s' 0 = Header ?h'" using p(3) by simp
    then show ?thesis using a b unfolding alloc_inv_def by simp
  qed
qed

lemma alloc_data_inv:
  assumes inv: "alloc_inv s" and run: "alloc_data s = (r, s')"
  shows "alloc_inv s'"
proof -
  from inv obtain h where h: "disk s 0 = Header h" unfolding alloc_inv_def by blast
  note ok = alloc_inv_header(1,2)[OF inv h]
  show ?thesis
  proof (cases "data_block_num_free h = 0")
    case True
    then show ?thesis using alloc_data_spec[OF inv h] run inv by simp
  next
    case False
    let ?st = "data_block_bitmap_offset h" and ?en = "inode_block_offset h"
    let ?h' = "h\<lparr> data_block_num_free := data_block_num_free h - 1 \<rparr>"
    from alloc_data_spec[OF inv h] False run
    obtain p w where p: "lowest_clear s ?st ?en (Some p)"
      "disk s (p div siz + ?st) = Bitmap w"
      "disk s' = (disk s)(p div siz + ?st := Bitmap (BitmapBlock_set w (p mod siz)), 0 := Header ?h')"
      "BLOCK_NUM s' = BLOCK_NUM s"
      "data_bitmap_min_pos s' = max (data_bitmap_min_pos s) p"
      "inode_bitmap_min_pos s' = inode_bitmap_min_pos s"
      by auto
    have a: "bitmap_ok s' ?st ?en (data_block_num_tot h) (data_block_num_free h - 1) (data_bitmap_min_pos s')"
      using bitmap_ok_set(1)[OF ok(2) p(1) False p(2) p(3) p(4)] p(5) by simp
    have "p < (?en - ?st) * siz" using p(1) by (simp add: lowest_clear_def)
    from block_in_range[OF this] have "?st \<le> p div siz + ?st" by simp
    then have b: "bitmap_ok s' (inode_bitmap_offset h) ?st (inode_num_tot h) (inode_num_free h) (inode_bitmap_min_pos s')"
      using bitmap_ok_other[OF ok(1) p(3) _ p(4)] p(6) by simp
    have "disk s' 0 = Header ?h'" using p(3) by simp
    then show ?thesis using a b unfolding alloc_inv_def by simp
  qed
qed

lemma free_inode_inv:
  assumes inv: "alloc_inv s" and h: "disk s 0 = Header h" and n: "n < inode_num_tot h"
    and run: "free_inode n s = (r, s')"
  shows "alloc_inv s'"
proof -
  note ok = alloc_inv_header(1,2)[OF inv h]
  let ?st = "inode_bitmap_offset h" and ?en = "data_block_bitmap_offset h"
  show ?thesis
  proof (cases "bitmap_bit s ?st n")
    case False
    then show ?thesis using free_inode_spec[OF inv h n] run inv by simp
  next
    case True
    let ?h' = "h\<lparr> inode_num_free := inode_num_free h + 1 \<rparr>"
    from free_inode_spec[OF inv h n] True run
    obtain w where p:
      "disk s (n div siz + ?st) = Bitmap w"
      "disk s' = (disk s)(n div siz + ?st := Bitmap (BitmapBlock_clear w (n mod siz)), 0 := Header ?h')"
      "BLOCK_NUM s' = BLOCK_NUM s"
      "inode_bitmap_min_pos s' = min (inode_bitmap_min_pos s) n"
      "data_bitmap_min_pos s' = data_bitmap_min_pos s"
      by auto
    have a: "bitmap_ok s' ?st ?en (inode_num_tot h) (inode_num_free h + 1) (inode_bitmap_min_pos s')"
      using bitmap_ok_clear(1)[OF ok(1) n True p(1) p(2) p(3)] p(4) by simp
    have "n < (?en - ?st) * siz" using n ok(1) unfolding bitmap_ok_def by simp
    from block_in_range[OF this] have "n div siz + ?st < ?en" by simp
    then have b: "bitmap_ok s' ?en (inode_block_offset h) (data_block_num_tot h) (data_block_num_free h) (data_bitmap_min_pos s')"
      using bitmap_ok_other[OF ok(2) p(2) _ p(3)] p(5) by simp
    have "disk s' 0 = Header ?h'" using p(2) by simp
    then show ?thesis using a b unfolding alloc_inv_def by simp
  qed
qed

lemma free_data_inv:
  assumes inv: "alloc_inv s" and h: "disk s 0 = Header h"
    and n: "bn < data_block_offset h + data_block_num_tot h"
    and run: "free_data bn s = (r, s')"
  shows "alloc_inv s'"
proof -
  note ok = alloc_inv_header(1,2)[OF inv h]
  let ?st = "data_block_bitmap_offset h" and ?en = "inode_block_offset h"
  let ?pos = "bn - data_block_offset h"
  show ?thesis
  proof (cases "data_block_offset h \<le> bn \<and> bitmap_bit s ?st ?pos")
    case False
    then show ?thesis using free_data_spec[OF inv h n] run inv by auto
  next
    case True
    let ?h' = "h\<lparr> data_block_num_free := data_block_num_free h + 1 \<rparr>"
    from free_data_spec[OF inv h n] True run
    obtain w where p:
      "disk s (?pos div siz + ?st) = Bitmap w"
      "disk s' = (disk s)(?pos div siz + ?st := Bitmap (BitmapBlock_clear w (?pos mod siz)), 0 := Header ?h')"
      "BLOCK_NUM s' = BLOCK_NUM s"
      "data_bitmap_min_pos s' = min (data_bitmap_min_pos s) ?pos"
      "inode_bitmap_min_pos s' = inode_bitmap_min_pos s"
      by auto
    have n': "?pos < data_block_num_tot h" using n True by auto
    have a: "bitmap_ok s' ?st ?en (data_block_num_tot h) (data_block_num_free h + 1) (data_bitmap_min_pos s')"
      using bitmap_ok_clear(1)[OF ok(2) n' _ p(1) p(2) p(3)] True p(4) by simp
    have "?pos < (?en - ?st) * siz" using n' ok(2) unfolding bitmap_ok_def by simp
    from block_in_range[OF this] have "?st \<le> ?pos div siz + ?st" by simp
    then have b: "bitmap_ok s' (inode_bitmap_offset h) ?st (inode_num_tot h) (inode_num_free h) (inode_bitmap_min_pos s')"
      using bitmap_ok_other[OF ok(1) p(2) _ p(3)] p(5) by simp
    have "disk s' 0 = Header ?h'" using p(2) by simp
    then show ?thesis using a b unfolding alloc_inv_def by simp
  qed
qed

subsection \<open>The format establishes the invariant\<close>

lemma ceil_le: "DIVIDE_CEIL x (BLOCK_SIZE * 8) \<le> x"
  by (simp add: DIVIDE_CEIL_def BLOCK_SIZE_def)

lemma ceil_covers: "x \<le> DIVIDE_CEIL x (BLOCK_SIZE * 8) * siz"
  by (simp add: DIVIDE_CEIL_def BLOCK_SIZE_def siz_def)

lemma HeaderBlock_new_geometry:
  assumes "n < 2 ^ 31"
  shows "inode_bitmap_offset (HeaderBlock_new n) = 1"
    "1 \<le> data_block_bitmap_offset (HeaderBlock_new n)"
    "data_block_bitmap_offset (HeaderBlock_new n) \<le> inode_block_offset (HeaderBlock_new n)"
    "inode_num_tot (HeaderBlock_new n) \<le> (data_block_bitmap_offset (HeaderBlock_new n) - 1) * siz"
    "data_block_num_tot (HeaderBlock_new n)
       \<le> (inode_block_offset (HeaderBlock_new n) - data_block_bitmap_offset (HeaderBlock_new n)) * siz"
    "inode_num_tot (HeaderBlock_new n) < 2 ^ 32" "data_block_num_tot (HeaderBlock_new n) < 2 ^ 32"
    "inode_num_free (HeaderBlock_new n) = inode_num_tot (HeaderBlock_new n)"
    "data_block_num_free (HeaderBlock_new n) = data_block_num_tot (HeaderBlock_new n)"
proof -
  define a where "a = n - 1"
  define ib where "ib = a div INODE_IN_BLOCK"
  define ibb where "ibb = DIVIDE_CEIL (ib * INODE_IN_BLOCK) (BLOCK_SIZE * 8)"
  define rem where "rem = a - (ib + ibb)"
  define dbb where "dbb = DIVIDE_CEIL rem (BLOCK_SIZE * 8)"
  have H: "HeaderBlock_new n = \<lparr> MAGIC_NUMBER = 0x19260817, inode_num_tot = ib * INODE_IN_BLOCK,
          inode_num_free = ib * INODE_IN_BLOCK, inode_bitmap_offset = 1,
          inode_block_offset = 1 + ibb + dbb, data_block_num_tot = rem - dbb,
          data_block_num_free = rem - dbb, data_block_bitmap_offset = 1 + ibb,
          data_block_offset = 1 + ibb + dbb + ib \<rparr>"
    by (simp add: HeaderBlock_new_def Let_def a_def ib_def ibb_def rem_def dbb_def)
  have le: "ib * INODE_IN_BLOCK \<le> a" by (simp add: ib_def)
  have a: "a < 2 ^ 31" using assms by (simp add: a_def)
  show "inode_bitmap_offset (HeaderBlock_new n) = 1" by (simp add: H)
  show "1 \<le> data_block_bitmap_offset (HeaderBlock_new n)" by (simp add: H)
  show "data_block_bitmap_offset (HeaderBlock_new n) \<le> inode_block_offset (HeaderBlock_new n)"
    by (simp add: H)
  show "inode_num_tot (HeaderBlock_new n) \<le> (data_block_bitmap_offset (HeaderBlock_new n) - 1) * siz"
    using ceil_covers[of "ib * INODE_IN_BLOCK"] by (simp add: H ibb_def)
  show "data_block_num_tot (HeaderBlock_new n)
       \<le> (inode_block_offset (HeaderBlock_new n) - data_block_bitmap_offset (HeaderBlock_new n)) * siz"
    using ceil_covers[of rem] by (simp add: H dbb_def)
  show "inode_num_tot (HeaderBlock_new n) < 2 ^ 32" using le a by (simp add: H)
  have "rem \<le> a" by (simp add: rem_def)
  then show "data_block_num_tot (HeaderBlock_new n) < 2 ^ 32" using a by (simp add: H)
  show "inode_num_free (HeaderBlock_new n) = inode_num_tot (HeaderBlock_new n)" by (simp add: H)
  show "data_block_num_free (HeaderBlock_new n) = data_block_num_tot (HeaderBlock_new n)" by (simp add: H)
qed

lemma HeaderBlock_new_fits:
  assumes "1 \<le> n"
  shows "inode_block_offset (HeaderBlock_new n) \<le> n"
proof -
  define a where "a = n - 1"
  define ib where "ib = a div INODE_IN_BLOCK"
  define ibb where "ibb = DIVIDE_CEIL (ib * INODE_IN_BLOCK) (BLOCK_SIZE * 8)"
  define rem where "rem = a - (ib + ibb)"
  define dbb where "dbb = DIVIDE_CEIL rem (BLOCK_SIZE * 8)"
  have H: "inode_block_offset (HeaderBlock_new n) = 1 + ibb + dbb"
    by (simp add: HeaderBlock_new_def Let_def a_def ib_def ibb_def rem_def dbb_def)
  have "ib + ibb \<le> a"
    unfolding ib_def ibb_def DIVIDE_CEIL_def INODE_IN_BLOCK_def BLOCK_SIZE_def by simp
  moreover have "dbb \<le> rem" unfolding dbb_def by (rule ceil_le)
  ultimately have "ibb + dbb \<le> a" unfolding rem_def by arith
  then show ?thesis using assms by (simp add: H a_def)
qed

lemma bindM_Inr:
  "bindM m f s = (Inr r, s') \<longleftrightarrow> (\<exists>x s1. m s = (Inr x, s1) \<and> f x s1 = (Inr r, s'))"
  by (auto simp: bindM_apply split: prod.splits sum.splits)

lemma mkfs_bitmaps_run:
  "\<exists>s'. mkfs_bitmaps i k s = (Inr (), s')
     \<and> disk s' = (\<lambda>b. if i \<le> b \<and> b < i + k then Bitmap (\<lambda>_. 0) else disk s b)
     \<and> BLOCK_NUM s' = BLOCK_NUM s \<and> clock s' = clock s
     \<and> inode_bitmap_min_pos s' = inode_bitmap_min_pos s
     \<and> data_bitmap_min_pos s' = data_bitmap_min_pos s"
proof (induction k arbitrary: i s)
  case 0
  have "disk s = (\<lambda>b. if i \<le> b \<and> b < i + 0 then Bitmap (\<lambda>_. 0) else disk s b)"
    by (rule ext) auto
  then show ?case by (simp add: mkfs_bitmaps.simps returnM_apply)
next
  case (Suc k)
  let ?s1 = "s\<lparr> disk := (disk s)(i := Bitmap (\<lambda>_. 0)), writes := writes s @ [(i, Bitmap (\<lambda>_. 0))] \<rparr>"
  from Suc[of "i + 1" ?s1] obtain s' where s': "mkfs_bitmaps (i + 1) k ?s1 = (Inr (), s')"
     "disk s' = (\<lambda>b. if i + 1 \<le> b \<and> b < i + 1 + k then Bitmap (\<lambda>_. 0) else disk ?s1 b)"
     "BLOCK_NUM s' = BLOCK_NUM ?s1" "clock s' = clock ?s1"
     "inode_bitmap_min_pos s' = inode_bitmap_min_pos ?s1"
     "data_bitmap_min_pos s' = data_bitmap_min_pos ?s1" by blast
  have "mkfs_bitmaps i (Suc k) s = (Inr (), s')"
    using s'(1) by (simp add: mkfs_bitmaps.simps bindM_apply commit_apply)
  moreover have "disk s' = (\<lambda>b. if i \<le> b \<and> b < i + Suc k then Bitmap (\<lambda>_. 0) else disk s b)"
    unfolding s'(2) by (rule ext) auto
  ultimately show ?case using s'(3-6) by simp
qed

lemma bitmap_ok_frame:
  assumes ok: "bitmap_ok s st en tot free hint"
    and same: "\<forall>b w. disk s b = Bitmap w \<longrightarrow> disk s' b = disk s b"
    and bn: "BLOCK_NUM s' = BLOCK_NUM s"
  shows "bitmap_ok s' st en tot free hint"
proof -
  from ok have st: "0 < st" "tot \<le> (en - st) * siz" "hint \<le> tot"
    and blocks: "bitmap_blocks s st en"
    unfolding bitmap_ok_def by auto
  have blocks': "bitmap_blocks s' st en"
    using blocks same bn unfolding bitmap_blocks_def by metis
  have bit: "\<And>q. q < (en - st) * siz \<Longrightarrow> bitmap_bit s' st q = bitmap_bit s st q"
  proof -
    fix q assume "q < (en - st) * siz"
    from found_block[OF blocks this] obtain w where "disk s (q div siz + st) = Bitmap w" by blast
    then have "disk s' (q div siz + st) = disk s (q div siz + st)" using same by blast
    then show "bitmap_bit s' st q = bitmap_bit s st q" by (simp add: bitmap_bit_def)
  qed
  have set_eq: "{p. p < tot \<and> \<not> bitmap_bit s' st p} = {p. p < tot \<and> \<not> bitmap_bit s st p}"
    using bit st(2) by auto
  show ?thesis
    using ok blocks' st bit unfolding bitmap_ok_def set_eq by auto
qed

lemma alloc_inv_frame:
  assumes inv: "alloc_inv s" and h: "disk s' 0 = disk s 0"
    and same: "\<forall>b w. disk s b = Bitmap w \<longrightarrow> disk s' b = disk s b"
    and bn: "BLOCK_NUM s' = BLOCK_NUM s"
    and hints: "inode_bitmap_min_pos s' = inode_bitmap_min_pos s"
      "data_bitmap_min_pos s' = data_bitmap_min_pos s"
  shows "alloc_inv s'"
  using inv h hints bitmap_ok_frame[OF _ same bn] unfolding alloc_inv_def by auto

lemma alloc_inv_commit:
  assumes inv: "alloc_inv s" and nb: "\<forall>w. disk s b \<noteq> Bitmap w" and nh: "\<forall>h. disk s b \<noteq> Header h"
    and run: "commit b blk s = (r, s')"
  shows "alloc_inv s'"
proof -
  from inv obtain h where "disk s 0 = Header h" unfolding alloc_inv_def by blast
  then have "b \<noteq> 0" using nh by (cases "b = 0") auto
  then show ?thesis
    using run nb by (intro alloc_inv_frame[OF inv]) (auto simp: commit_apply)
qed


lemma load_INodes_Inr: "load_INodes b s = (Inr t, s') \<longleftrightarrow> b < BLOCK_NUM s \<and> disk s b = INodes t \<and> s' = s"
  by (auto simp: load_INodes_apply split: block.splits)

lemma load_state: "load_Raw b s = (r, s') \<Longrightarrow> s' = s" "load_INodes b s = (r', s') \<Longrightarrow> s' = s"
   "load_Header b s = (r'', s') \<Longrightarrow> s' = s" "load_Bitmap b s = (r''', s') \<Longrightarrow> s' = s"
  by (auto simp: load_Raw_apply load_INodes_apply load_Header_apply load_Bitmap_apply split: block.splits if_splits)

lemma INodeProxy_commit_inv:
  assumes inv: "alloc_inv s" and run: "INodeProxy_commit i x s = (r, s')"
  shows "alloc_inv s'"
proof -
  from inv obtain h where h: "disk s 0 = Header h" unfolding alloc_inv_def by blast
  note gh = alloc_inv_header(3)[OF inv h]
  let ?b = "i div INODE_IN_BLOCK + inode_block_offset h"
  show ?thesis
  proof (cases "load_INodes ?b s")
    case (Pair a s1)
    then have s1: "s1 = s" by (rule load_state)
    show ?thesis
    proof (cases a)
      case (Inl e)
      then show ?thesis using run gh Pair s1 inv
        by (simp add: INodeProxy_commit_def bindM_apply)
    next
      case (Inr t)
      then have t: "disk s ?b = INodes t" using Pair by (simp add: load_INodes_Inr)
      have c: "commit ?b (INodes (t(i mod INODE_IN_BLOCK := x))) s = (r, s')"
        using run gh Pair s1 Inr by (simp add: INodeProxy_commit_def bindM_apply)
      show ?thesis using alloc_inv_commit[OF inv _ _ c] t by simp
    qed
  qed
qed

lemma get_zero: "\<not> BitmapBlock_get (\<lambda>_. 0) p"
  by (simp add: BitmapBlock_get_def)

lemma zero_bitmap_ok:
  assumes z: "\<forall>b. st \<le> b \<and> b < en \<longrightarrow> disk s b = Bitmap (\<lambda>_. 0)"
    and g: "0 < st" "st \<le> en" "en \<le> BLOCK_NUM s" "tot \<le> (en - st) * siz" "tot < 2 ^ 32"
  shows "bitmap_ok s st en tot tot 0"
proof -
  have blocks: "bitmap_blocks s st en" using z g(3) unfolding bitmap_blocks_def by auto
  have bit: "\<And>q. q < (en - st) * siz \<Longrightarrow> \<not> bitmap_bit s st q"
  proof -
    fix q assume "q < (en - st) * siz"
    from block_in_range[OF this] have "disk s (q div siz + st) = Bitmap (\<lambda>_. 0)" using z by blast
    then show "\<not> bitmap_bit s st q" by (simp add: bitmap_bit_def get_zero)
  qed
  have "{p. p < tot \<and> \<not> bitmap_bit s st p} = {..<tot}" using bit g(4) by auto
  then have "tot = card {p. p < tot \<and> \<not> bitmap_bit s st p}" by simp
  then show ?thesis using blocks bit g unfolding bitmap_ok_def by auto
qed

lemma formatted_alloc_inv:
  assumes n: "BLOCK_NUM s < 2 ^ 31" "1 \<le> BLOCK_NUM s"
    and d: "disk s = (\<lambda>b. if 1 \<le> b \<and> b < 1 + (inode_block_offset (HeaderBlock_new (BLOCK_NUM s)) - 1)
                           then Bitmap (\<lambda>_. 0) else (D(0 := Header (HeaderBlock_new (BLOCK_NUM s)))) b)"
    and hints: "inode_bitmap_min_pos s = 0" "data_bitmap_min_pos s = 0"
  shows "alloc_inv s"
proof -
  define h where "h = HeaderBlock_new (BLOCK_NUM s)"
  note G = HeaderBlock_new_geometry[OF n(1), folded h_def]
  note F = HeaderBlock_new_fits[OF n(2), folded h_def]
  have d0: "disk s 0 = Header h" unfolding d h_def by simp
  have z: "\<forall>b. 1 \<le> b \<and> b < inode_block_offset h \<longrightarrow> disk s b = Bitmap (\<lambda>_. 0)"
    unfolding d h_def by auto
  have a: "bitmap_ok s (inode_bitmap_offset h) (data_block_bitmap_offset h) (inode_num_tot h) (inode_num_free h) 0"
    unfolding G(8) G(1)
    using z G(2,3,4,6) F by (intro zero_bitmap_ok) auto
  have b: "bitmap_ok s (data_block_bitmap_offset h) (inode_block_offset h) (data_block_num_tot h) (data_block_num_free h) 0"
    unfolding G(9)
    using z G(2,3,5,7) F by (intro zero_bitmap_ok) auto
  show ?thesis unfolding alloc_inv_def using d0 a b hints by auto
qed

lemma INodeProxy_new_after_commit:
  assumes inv: "alloc_inv s" and run: "INodeProxy_commit i x s = (Inr (), s')"
  shows "INodeProxy_new i s' = (Inr x, s')"
proof -
  from inv obtain h where h: "disk s 0 = Header h" unfolding alloc_inv_def by blast
  note gh = alloc_inv_header(3)[OF inv h]
  let ?b = "i div INODE_IN_BLOCK + inode_block_offset h"
  from run gh obtain t where t: "load_INodes ?b s = (Inr t, s)"
     "commit ?b (INodes (t(i mod INODE_IN_BLOCK := x))) s = (Inr (), s')"
    by (auto simp: INodeProxy_commit_def bindM_Inr dest: load_state)
  then have tb: "?b < BLOCK_NUM s" "disk s ?b = INodes t" by (auto simp: load_INodes_Inr)
  then have "?b \<noteq> 0" using h by (cases "?b = 0") auto
  then have "disk s' 0 = Header h" "disk s' ?b = INodes (t(i mod INODE_IN_BLOCK := x))" "BLOCK_NUM s' = BLOCK_NUM s"
    using t(2) h by (auto simp: commit_apply)
  moreover have "0 < BLOCK_NUM s" using tb(1) by simp
  ultimately show ?thesis using tb(1)
    by (simp add: INodeProxy_new_def bindM_apply get_header_def load_Header_apply load_INodes_apply returnM_apply)
qed

lemma resize_empty_inv:
  assumes inv: "alloc_inv s" and ino: "INodeProxy_new i s = (Inr x, s)" "direct_pointer x = 0"
    and run: "resize (Suc d) i 0 s = (r, s')"
  shows "alloc_inv s'"
proof -
  have gbs: "get_block_size i s = (Inr 0, s)"
    using ino by (simp add: get_block_size_def bindM_apply returnM_apply)
  have need: "block_need_of 0 = 0"
    by (simp add: block_need_of_def to_int_def BLOCK_SIZE_def)
  have loop: "\<And>y. resize_loop 0 0 y s = (Inr (Next y), s)"
    by (subst resize_loop.simps) simp
  have "INodeProxy_commit i (x\<lparr> ctime := clock s mod 2 ^ 32, filesize := 0 \<rparr>) s = (case r of Inl e \<Rightarrow> Inl e | Inr _ \<Rightarrow> Inr (), s')"
    using run gbs ino(1) need loop
    by (auto simp: resize.simps bindM_apply getsM_apply returnM_apply split: prod.splits sum.splits)
  then show ?thesis using INodeProxy_commit_inv[OF inv] by blast
qed

lemma INodeProxy_new_state: "INodeProxy_new i s = (r, s') \<Longrightarrow> s' = s"
  by (auto simp: INodeProxy_new_def bindM_apply get_header_def returnM_apply
      split: prod.splits sum.splits dest: load_state)

lemma mkfs_alloc_inv:
  assumes n: "BLOCK_NUM s0 < 2 ^ 31"
    and hints: "data_bitmap_min_pos s0 = 0" "inode_bitmap_min_pos s0 = 0"
    and run: "Disk_mkfs s0 = (Inr r, s)"
  shows "alloc_inv s"
proof -
  define h0 where "h0 = HeaderBlock_new (BLOCK_NUM s0)"
  define sa where "sa = s0\<lparr> disk := (disk s0)(0 := Header h0), writes := writes s0 @ [(0, Header h0)] \<rparr>"
  from mkfs_bitmaps_run[of 1 "inode_block_offset h0 - 1" sa]
  obtain sb where sb: "mkfs_bitmaps 1 (inode_block_offset h0 - 1) sa = (Inr (), sb)"
     "disk sb = (\<lambda>b. if 1 \<le> b \<and> b < 1 + (inode_block_offset h0 - 1) then Bitmap (\<lambda>_. 0) else disk sa b)"
     "BLOCK_NUM sb = BLOCK_NUM sa" "inode_bitmap_min_pos sb = inode_bitmap_min_pos sa"
     "data_bitmap_min_pos sb = data_bitmap_min_pos sa" by blast
  have steps: "0 < BLOCK_NUM s0 \<and> (\<exists>root sc t sd. alloc_inode sb = (Inr (Some root), sc) \<and>
    INodeProxy_commit root (new_inode DIRECTORY t) sc = (Inr (), sd) \<and>
    (\<exists>r'. DataProxy_resize root 0 sd = (Inr r', s)))"
    using run sb(1) unfolding Disk_mkfs_def
    apply (simp add: bindM_Inr getsM_apply commit_apply Let_def h0_def[symmetric] sa_def[symmetric]
          from_blockno_apply returnM_apply failM_apply split: if_splits option.splits)
    apply (auto simp: bindM_Inr dest!: INodeProxy_new_state split: option.splits)
    apply blast
    done
  then obtain root sc t sd where steps:
    "0 < BLOCK_NUM s0"
    "alloc_inode sb = (Inr (Some root), sc)"
    "INodeProxy_commit root (new_inode DIRECTORY t) sc = (Inr (), sd)"
    "\<exists>r'. DataProxy_resize root 0 sd = (Inr r', s)" by blast
  have "alloc_inv sb"
  proof (rule formatted_alloc_inv[where D = "disk s0"])
    show "BLOCK_NUM sb < 2 ^ 31" using n sb(3) by (simp add: sa_def)
    show "1 \<le> BLOCK_NUM sb" using steps(1) sb(3) by (simp add: sa_def)
    show "disk sb = (\<lambda>b. if 1 \<le> b \<and> b < 1 + (inode_block_offset (HeaderBlock_new (BLOCK_NUM sb)) - 1)
                           then Bitmap (\<lambda>_. 0) else ((disk s0)(0 := Header (HeaderBlock_new (BLOCK_NUM sb)))) b)"
    proof -
      have e: "BLOCK_NUM sb = BLOCK_NUM s0" using sb(3) by (simp add: sa_def)
      have da: "disk sa = (disk s0)(0 := Header h0)" by (simp add: sa_def)
      show ?thesis unfolding sb(2) e da h0_def ..
    qed
    show "inode_bitmap_min_pos sb = 0" "data_bitmap_min_pos sb = 0"
      using hints sb(4,5) by (simp_all add: sa_def)
  qed
  then have "alloc_inv sc" using alloc_inode_inv steps(2) by blast
  then have sd: "alloc_inv sd" "INodeProxy_new root sd = (Inr (new_inode DIRECTORY t), sd)"
    using INodeProxy_commit_inv steps(3) INodeProxy_new_after_commit by blast+
  from steps(4) obtain r' where "resize (Suc (STACK_DEPTH - 1)) root 0 sd = (Inr r', s)"
    by (auto simp: DataProxy_resize_def STACK_DEPTH_def)
  then show ?thesis using resize_empty_inv[OF sd(1) sd(2)] by (simp add: new_inode_def)
qed

lemma in_range_alloc_inv: "reachable_in_range s \<Longrightarrow> alloc_inv s"
proof (induction rule: reachable_in_range.induct)
  case (formatted s0 r s)
  then show ?case using mkfs_alloc_inv by blast
next
  case (after_alloc_inode s r s')
  then show ?case using alloc_inode_inv by blast
next
  case (after_free_inode s h n s')
  then show ?case using free_inode_inv by blast
next
  case (after_alloc_data s r s')
  then show ?case using alloc_data_inv by blast
next
  case (after_free_data s h bn s')
  then show ?case using free_data_inv by blast
qed

lemma popcount_clear_bits:
  assumes "bitmap_ok s st en tot free hint"
  shows "free = clear_bits s st tot" "free = tot - popcount s st en"
proof -
  show a: "free = clear_bits s st tot" using assms by (simp add: bitmap_ok_def clear_bits_def)
  have le: "tot \<le> (en - st) * siz" and pad: "\<forall>p. tot \<le> p \<and> p < (en - st) * siz \<longrightarrow> \<not> bitmap_bit s st p"
    using assms by (auto simp: bitmap_ok_def)
  have eq: "{p. p < (en - st) * siz \<and> bitmap_bit s st p} = {p. p < tot \<and> bitmap_bit s st p}"
    using le pad by (auto simp: not_le[symmetric])
  have "{p. p < tot \<and> bitmap_bit s st p} \<union> {p. p < tot \<and> \<not> bitmap_bit s st p} = {..<tot}"
       "{p. p < tot \<and> bitmap_bit s st p} \<inter> {p. p < tot \<and> \<not> bitmap_bit s st p} = {}" by auto
  moreover have "finite {p. p < tot \<and> bitmap_bit s st p}" "finite {p. p < tot \<and> \<not> bitmap_bit s st p}" by auto
  ultimately have "card {p. p < tot \<and> bitmap_bit s st p} + card {p. p < tot \<and> \<not> bitmap_bit s st p} = tot"
    by (metis card_Un_disjoint card_lessThan)
  then show "free = tot - popcount s st en" using a eq by (simp add: popcount_def clear_bits_def)
qed

lemma set_bit_and_count:
  assumes "disk s (p div siz + st) = Bitmap w"
    "disk s' = (disk s)(p div siz + st := Bitmap (BitmapBlock_set w (p mod siz)), 0 := Header h')"
    "0 < st" "\<not> bitmap_bit s st p" "free \<noteq> 0" "free' = free - 1"
  shows "bit_and_count s s' st p True free free'"
  using bitmap_bit_set[OF assms(1,2,3)] assms(4,5,6) by (auto simp: bit_and_count_def)

lemma clear_bit_and_count:
  assumes "disk s (p div siz + st) = Bitmap w"
    "disk s' = (disk s)(p div siz + st := Bitmap (BitmapBlock_clear w (p mod siz)), 0 := Header h')"
    "0 < st" "bitmap_bit s st p" "free' = free + 1"
  shows "bit_and_count s s' st p False free free'"
  using bitmap_bit_clear[OF assms(1,2,3)] assms(4,5) by (auto simp: bit_and_count_def)

lemma alloc_inode_atomic:
  assumes inv: "alloc_inv s" and h: "disk s 0 = Header h"
  shows "if inode_num_free h = 0 then alloc_inode s = (Inr None, s)
         else (\<exists>p s' h'. alloc_inode s = (Inr (Some p), s') \<and> disk s' 0 = Header h'
                 \<and> bit_and_count s s' (inode_bitmap_offset h) p True (inode_num_free h) (inode_num_free h'))"
proof (cases "inode_num_free h = 0")
  case True
  then show ?thesis using alloc_inode_spec[OF inv h] by simp
next
  case False
  have st: "0 < inode_bitmap_offset h" using alloc_inv_header(1)[OF inv h] by (simp add: bitmap_ok_def)
  from False alloc_inode_spec[OF inv h] obtain p w s' where
    r: "alloc_inode s = (Inr (Some p), s')"
       "lowest_clear s (inode_bitmap_offset h) (data_block_bitmap_offset h) (Some p)"
       "disk s (p div siz + inode_bitmap_offset h) = Bitmap w"
       "disk s' = (disk s)(p div siz + inode_bitmap_offset h := Bitmap (BitmapBlock_set w (p mod siz)),
                                     0 := Header (h\<lparr> inode_num_free := inode_num_free h - 1 \<rparr>))"
    by auto
  have c: "\<not> bitmap_bit s (inode_bitmap_offset h) p" using r(2) by (simp add: lowest_clear_def)
  have "bit_and_count s s' (inode_bitmap_offset h) p True (inode_num_free h)
          (inode_num_free (h\<lparr> inode_num_free := inode_num_free h - 1 \<rparr>))"
    by (rule set_bit_and_count[OF r(3) r(4) st c False]) simp
  moreover have "disk s' 0 = Header (h\<lparr> inode_num_free := inode_num_free h - 1 \<rparr>)" using r(4) by simp
  ultimately show ?thesis using False r(1) by auto
qed

lemma alloc_data_atomic:
  assumes inv: "alloc_inv s" and h: "disk s 0 = Header h"
  shows "if data_block_num_free h = 0 then alloc_data s = (Inr None, s)
         else (\<exists>p s' h'. alloc_data s = (Inr (Some (p + data_block_offset h)), s') \<and> disk s' 0 = Header h'
                 \<and> bit_and_count s s' (data_block_bitmap_offset h) p True (data_block_num_free h) (data_block_num_free h'))"
proof (cases "data_block_num_free h = 0")
  case True
  then show ?thesis using alloc_data_spec[OF inv h] by simp
next
  case False
  have st: "0 < data_block_bitmap_offset h" using alloc_inv_header(2)[OF inv h] by (simp add: bitmap_ok_def)
  from False alloc_data_spec[OF inv h] obtain p w s' where
    r: "alloc_data s = (Inr (Some (p + data_block_offset h)), s')"
       "lowest_clear s (data_block_bitmap_offset h) (inode_block_offset h) (Some p)"
       "disk s (p div siz + data_block_bitmap_offset h) = Bitmap w"
       "disk s' = (disk s)(p div siz + data_block_bitmap_offset h := Bitmap (BitmapBlock_set w (p mod siz)),
                                     0 := Header (h\<lparr> data_block_num_free := data_block_num_free h - 1 \<rparr>))"
    by auto
  have c: "\<not> bitmap_bit s (data_block_bitmap_offset h) p" using r(2) by (simp add: lowest_clear_def)
  have "bit_and_count s s' (data_block_bitmap_offset h) p True (data_block_num_free h)
          (data_block_num_free (h\<lparr> data_block_num_free := data_block_num_free h - 1 \<rparr>))"
    by (rule set_bit_and_count[OF r(3) r(4) st c False]) simp
  moreover have "disk s' 0 = Header (h\<lparr> data_block_num_free := data_block_num_free h - 1 \<rparr>)" using r(4) by simp
  ultimately show ?thesis using False r(1) by auto
qed

lemma free_inode_atomic:
  assumes inv: "alloc_inv s" and h: "disk s 0 = Header h" and n: "n < inode_num_tot h"
  shows "if bitmap_bit s (inode_bitmap_offset h) n
         then (\<exists>s' h'. free_inode n s = (Inr (), s') \<and> disk s' 0 = Header h'
                 \<and> bit_and_count s s' (inode_bitmap_offset h) n False (inode_num_free h) (inode_num_free h'))
         else free_inode n s = (Inl AssertionFail, s)"
proof (cases "bitmap_bit s (inode_bitmap_offset h) n")
  case False
  then show ?thesis using free_inode_spec[OF inv h n] by simp
next
  case True
  have st: "0 < inode_bitmap_offset h" using alloc_inv_header(1)[OF inv h] by (simp add: bitmap_ok_def)
  from True free_inode_spec[OF inv h n] obtain w s' where
    r: "free_inode n s = (Inr (), s')"
       "disk s (n div siz + inode_bitmap_offset h) = Bitmap w"
       "disk s' = (disk s)(n div siz + inode_bitmap_offset h := Bitmap (BitmapBlock_clear w (n mod siz)),
                                     0 := Header (h\<lparr> inode_num_free := inode_num_free h + 1 \<rparr>))"
    by auto
  have "bit_and_count s s' (inode_bitmap_offset h) n False (inode_num_free h)
          (inode_num_free (h\<lparr> inode_num_free := inode_num_free h + 1 \<rparr>))"
    by (rule clear_bit_and_count[OF r(2) r(3) st True]) simp
  moreover have "disk s' 0 = Header (h\<lparr> inode_num_free := inode_num_free h + 1 \<rparr>)" using r(3) by simp
  ultimately show ?thesis using True r(1) by auto
qed

lemma free_data_atomic:
  assumes inv: "alloc_inv s" and h: "disk s 0 = Header h"
    and n: "bn < data_block_offset h + data_block_num_tot h"
  shows "if data_block_offset h \<le> bn \<and> bitmap_bit s (data_block_bitmap_offset h) (bn - data_block_offset h)
         then (\<exists>s' h'. free_data bn s = (Inr (), s') \<and> disk s' 0 = Header h'
                 \<and> bit_and_count s s' (data_block_bitmap_offset h) (bn - data_block_offset h) False
                      (data_block_num_free h) (data_block_num_free h'))
         else free_data bn s = (Inl AssertionFail, s)"
proof (cases "data_block_offset h \<le> bn \<and> bitmap_bit s (data_block_bitmap_offset h) (bn - data_block_offset h)")
  case False
  then show ?thesis using free_data_spec[OF inv h n] by auto
next
  case True
  have st: "0 < data_block_bitmap_offset h" using alloc_inv_header(2)[OF inv h] by (simp add: bitmap_ok_def)
  define p where "p = bn - data_block_offset h"
  from True free_data_spec[OF inv h n] obtain w s' where
    r: "free_data bn s = (Inr (), s')"
       "disk s (p div siz + data_block_bitmap_offset h) = Bitmap w"
       "disk s' = (disk s)(p div siz + data_block_bitmap_offset h := Bitmap (BitmapBlock_clear w (p mod siz)),
                                     0 := Header (h\<lparr> data_block_num_free := data_block_num_free h + 1 \<rparr>))"
    unfolding p_def by auto
  have b: "bitmap_bit s (data_block_bitmap_offset h) p" using True by (simp add: p_def)
  have "bit_and_count s s' (data_block_bitmap_offset h) p False (data_block_num_free h)
          (data_block_num_free (h\<lparr> data_block_num_free := data_block_num_free h + 1 \<rparr>))"
    by (rule clear_bit_and_count[OF r(2) r(3) st b]) simp
  moreover have "disk s' 0 = Header (h\<lparr> data_block_num_free := data_block_num_free h + 1 \<rparr>)" using r(3) by simp
  ultimately show ?thesis using True r(1) unfolding p_def by auto
qed

section \<open>What a run that returns has done\<close>




lemma get_header_state: "get_header s = (r, s') \<Longrightarrow> s' = s"
  by (auto simp: get_header_def load_Header_apply split: if_splits block.splits)
















section \<open>Inode records and the return values of resize\<close>







section \<open>The writes of one step of resize\<close>







section \<open>The allocator when every number freed is in range\<close>

lemma Disk_mkfs_lab: "fst (Disk_mkfs (lab_device itab raw t)) = Inr 0"
  by (simp add: Disk_mkfs_def [THEN fun_cong] exec cong: bindM_block fs_freeze_log)

lemma lab_device_in_range: "reachable_in_range (snd (Disk_mkfs (lab_device itab raw t)))"
proof -
  have "Disk_mkfs (lab_device itab raw t) = (Inr 0, snd (Disk_mkfs (lab_device itab raw t)))"
    using Disk_mkfs_lab[of itab raw t] by (metis prod.collapse)
  then show ?thesis by (rule reachable_in_range.formatted[rotated 3]) (simp_all add: lab_device_def)
qed

lemma in_range_alloc_data: "reachable_in_range s \<Longrightarrow> reachable_in_range (snd (alloc_data s))"
proof -
  assume r: "reachable_in_range s"
  then obtain h where h: "disk s 0 = Header h" using in_range_alloc_inv by (auto simp: alloc_inv_def)
  from alloc_data_spec[OF in_range_alloc_inv[OF r] h]
  obtain x where "alloc_data s = (Inr x, snd (alloc_data s))" by (auto split: if_splits)
  then show ?thesis using r reachable_in_range.after_alloc_data by blast
qed

lemma in_range_alloc_many: "reachable_in_range s \<Longrightarrow> reachable_in_range (snd (alloc_many n s))"
proof (induction n arbitrary: s)
  case 0
  then show ?case by (simp add: alloc_many.simps returnM_apply)
next
  case (Suc n)
  from Suc.prems obtain h where h: "disk s 0 = Header h"
    using in_range_alloc_inv by (auto simp: alloc_inv_def)
  from alloc_data_spec[OF in_range_alloc_inv[OF Suc.prems] h]
  obtain x s1 where x: "alloc_data s = (Inr x, s1)" by (auto split: if_splits)
  then have "alloc_many (Suc n) s = alloc_many n s1" "snd (alloc_data s) = s1"
    by (simp_all add: alloc_many.simps bindM_apply)
  then show ?case using Suc.IH[OF in_range_alloc_data[OF Suc.prems]] by simp
qed

lemma after_65_in_range: "reachable_in_range after_65_blocks"
  unfolding after_65_blocks_def used_device_def
  by (rule in_range_alloc_many[OF lab_device_in_range])

lemma set_bit_lowers_clear_bits:
  assumes "bitmap_bit s st p" "p < tot"
  shows "clear_bits s st tot < tot"
proof -
  have "{q. q < tot \<and> \<not> bitmap_bit s st q} \<subseteq> {..<tot} - {p}" using assms by auto
  then have "card {q. q < tot \<and> \<not> bitmap_bit s st q} \<le> card ({..<tot} - {p})"
    by (intro card_mono) auto
  also have "\<dots> = tot - 1" using assms(2) by simp
  finally show ?thesis using assms(2) by (simp add: clear_bits_def)
qed

text \<open>
  C5, as amended. In every state reached from mkfs by alloc_inode, free_inode, alloc_data
  and free_data, where every number freed is in range (an inode number below
  \<open>inode_num_tot\<close>, a block number below the end of the data region), the
  superblock's two free counts are the numbers of clear bits of the two bitmaps (the
  total minus the population count), and each of the four operations either changes one
  bit and the count together, or reports failure and leaves the state as it was.
\<close>

theorem allocator_counts_follow_bitmaps:
  assumes "reachable_in_range s"
  shows "\<exists>h. disk s 0 = Header h
    \<and> inode_num_free h = clear_bits s (inode_bitmap_offset h) (inode_num_tot h)
    \<and> inode_num_free h = inode_num_tot h - popcount s (inode_bitmap_offset h) (data_block_bitmap_offset h)
    \<and> data_block_num_free h = clear_bits s (data_block_bitmap_offset h) (data_block_num_tot h)
    \<and> data_block_num_free h = data_block_num_tot h - popcount s (data_block_bitmap_offset h) (inode_block_offset h)
    \<and> (if inode_num_free h = 0 then alloc_inode s = (Inr None, s)
        else (\<exists>p s' h'. alloc_inode s = (Inr (Some p), s') \<and> disk s' 0 = Header h'
               \<and> bit_and_count s s' (inode_bitmap_offset h) p True (inode_num_free h) (inode_num_free h')))
    \<and> (if data_block_num_free h = 0 then alloc_data s = (Inr None, s)
        else (\<exists>p s' h'. alloc_data s = (Inr (Some (p + data_block_offset h)), s') \<and> disk s' 0 = Header h'
               \<and> bit_and_count s s' (data_block_bitmap_offset h) p True (data_block_num_free h) (data_block_num_free h')))
    \<and> (\<forall>n < inode_num_tot h.
          if bitmap_bit s (inode_bitmap_offset h) n
          then (\<exists>s' h'. free_inode n s = (Inr (), s') \<and> disk s' 0 = Header h'
                 \<and> bit_and_count s s' (inode_bitmap_offset h) n False (inode_num_free h) (inode_num_free h'))
          else free_inode n s = (Inl AssertionFail, s))
    \<and> (\<forall>bn < data_block_offset h + data_block_num_tot h.
          if data_block_offset h \<le> bn \<and> bitmap_bit s (data_block_bitmap_offset h) (bn - data_block_offset h)
          then (\<exists>s' h'. free_data bn s = (Inr (), s') \<and> disk s' 0 = Header h'
                 \<and> bit_and_count s s' (data_block_bitmap_offset h) (bn - data_block_offset h) False
                      (data_block_num_free h) (data_block_num_free h'))
          else free_data bn s = (Inl AssertionFail, s))"
proof -
  from assms have inv: "alloc_inv s" by (rule in_range_alloc_inv)
  then obtain h where h: "disk s 0 = Header h" by (auto simp: alloc_inv_def)
  note a = popcount_clear_bits[OF alloc_inv_header(1)[OF inv h]]
  note b = popcount_clear_bits[OF alloc_inv_header(2)[OF inv h]]
  note c = alloc_inode_atomic[OF inv h] alloc_data_atomic[OF inv h]
  have d: "\<forall>n < inode_num_tot h.
          if bitmap_bit s (inode_bitmap_offset h) n
          then (\<exists>s' h'. free_inode n s = (Inr (), s') \<and> disk s' 0 = Header h'
                 \<and> bit_and_count s s' (inode_bitmap_offset h) n False (inode_num_free h) (inode_num_free h'))
          else free_inode n s = (Inl AssertionFail, s)"
    using free_inode_atomic[OF inv h] by blast
  have e: "\<forall>bn < data_block_offset h + data_block_num_tot h.
          if data_block_offset h \<le> bn \<and> bitmap_bit s (data_block_bitmap_offset h) (bn - data_block_offset h)
          then (\<exists>s' h'. free_data bn s = (Inr (), s') \<and> disk s' 0 = Header h'
                 \<and> bit_and_count s s' (data_block_bitmap_offset h) (bn - data_block_offset h) False
                      (data_block_num_free h) (data_block_num_free h'))
          else free_data bn s = (Inl AssertionFail, s)"
    using free_data_atomic[OF inv h] by blast
  show ?thesis
    apply (rule exI[of _ h])
    apply (intro conjI)
    apply (rule h a b c d e)+
    done
qed

text \<open>
  C8, as amended. In every such state the search for the first zero bit gives the same
  answer from the hinted position as from position 0, the lowest clear position of the
  bitmap; alloc_inode and alloc_data hand out that position whenever the free count is
  not 0, and raise the hint to the maximum of the hint and the position; free_inode
  and free_data of an allocated number in range lower the hint to the minimum of the
  hint and the position freed.
\<close>

theorem first_zero_ignores_hint:
  assumes "reachable_in_range s"
  shows "\<exists>h. disk s 0 = Header h
    \<and> (\<exists>r. BitMap_get_first_zero \<lparr> minpos = inode_bitmap_min_pos s, start = inode_bitmap_offset h,
                                     end' = data_block_bitmap_offset h \<rparr> s = (Inr r, s)
          \<and> BitMap_get_first_zero \<lparr> minpos = 0, start = inode_bitmap_offset h,
                                     end' = data_block_bitmap_offset h \<rparr> s = (Inr r, s)
          \<and> lowest_clear s (inode_bitmap_offset h) (data_block_bitmap_offset h) r)
    \<and> (\<exists>r. BitMap_get_first_zero \<lparr> minpos = data_bitmap_min_pos s, start = data_block_bitmap_offset h,
                                     end' = inode_block_offset h \<rparr> s = (Inr r, s)
          \<and> BitMap_get_first_zero \<lparr> minpos = 0, start = data_block_bitmap_offset h,
                                     end' = inode_block_offset h \<rparr> s = (Inr r, s)
          \<and> lowest_clear s (data_block_bitmap_offset h) (inode_block_offset h) r)
    \<and> (if inode_num_free h = 0 then alloc_inode s = (Inr None, s)
        else (\<exists>p s'. alloc_inode s = (Inr (Some p), s')
               \<and> lowest_clear s (inode_bitmap_offset h) (data_block_bitmap_offset h) (Some p)
               \<and> p < inode_num_tot h
               \<and> inode_bitmap_min_pos s' = max (inode_bitmap_min_pos s) p
               \<and> data_bitmap_min_pos s' = data_bitmap_min_pos s))
    \<and> (if data_block_num_free h = 0 then alloc_data s = (Inr None, s)
        else (\<exists>p s'. alloc_data s = (Inr (Some (p + data_block_offset h)), s')
               \<and> lowest_clear s (data_block_bitmap_offset h) (inode_block_offset h) (Some p)
               \<and> p < data_block_num_tot h
               \<and> data_bitmap_min_pos s' = max (data_bitmap_min_pos s) p
               \<and> inode_bitmap_min_pos s' = inode_bitmap_min_pos s))
    \<and> (\<forall>n < inode_num_tot h.
          if bitmap_bit s (inode_bitmap_offset h) n
          then (\<exists>s'. free_inode n s = (Inr (), s')
                 \<and> inode_bitmap_min_pos s' = min (inode_bitmap_min_pos s) n
                 \<and> data_bitmap_min_pos s' = data_bitmap_min_pos s)
          else free_inode n s = (Inl AssertionFail, s))
    \<and> (\<forall>bn < data_block_offset h + data_block_num_tot h.
          if data_block_offset h \<le> bn \<and> bitmap_bit s (data_block_bitmap_offset h) (bn - data_block_offset h)
          then (\<exists>s'. free_data bn s = (Inr (), s')
                 \<and> data_bitmap_min_pos s' = min (data_bitmap_min_pos s) (bn - data_block_offset h)
                 \<and> inode_bitmap_min_pos s' = inode_bitmap_min_pos s)
          else free_data bn s = (Inl AssertionFail, s))"
proof -
  from assms have inv: "alloc_inv s" by (rule in_range_alloc_inv)
  then obtain h where h: "disk s 0 = Header h" by (auto simp: alloc_inv_def)
  have same: "\<exists>r. BitMap_get_first_zero \<lparr> minpos = hint, start = st, end' = en \<rparr> s = (Inr r, s)
          \<and> BitMap_get_first_zero \<lparr> minpos = 0, start = st, end' = en \<rparr> s = (Inr r, s)
          \<and> lowest_clear s st en r"
    if ok: "bitmap_ok s st en tot free hint" for st en tot free hint
  proof -
    have bl: "bitmap_blocks s st en" and hi: "\<forall>p. p < hint \<longrightarrow> bitmap_bit s st p"
      using ok by (auto simp: bitmap_ok_def)
    from first_zero_spec[OF bl hi] obtain r where
      r: "BitMap_get_first_zero \<lparr> minpos = hint, start = st, end' = en \<rparr> s = (Inr r, s)"
         "lowest_clear s st en r" by blast
    from first_zero_spec[OF bl, of 0] obtain r0 where
      r0: "BitMap_get_first_zero \<lparr> minpos = 0, start = st, end' = en \<rparr> s = (Inr r0, s)"
         "lowest_clear s st en r0" by auto
    have "r0 = r" using lowest_clear_unique[OF r0(2) r(2)] .
    then show ?thesis using r r0 by blast
  qed
  note a = same[OF alloc_inv_header(1)[OF inv h]] same[OF alloc_inv_header(2)[OF inv h]]
  have c: "if inode_num_free h = 0 then alloc_inode s = (Inr None, s)
        else (\<exists>p s'. alloc_inode s = (Inr (Some p), s')
               \<and> lowest_clear s (inode_bitmap_offset h) (data_block_bitmap_offset h) (Some p)
               \<and> p < inode_num_tot h
               \<and> inode_bitmap_min_pos s' = max (inode_bitmap_min_pos s) p
               \<and> data_bitmap_min_pos s' = data_bitmap_min_pos s)"
    using alloc_inode_spec[OF inv h] by (cases "inode_num_free h = 0") auto
  have d: "if data_block_num_free h = 0 then alloc_data s = (Inr None, s)
        else (\<exists>p s'. alloc_data s = (Inr (Some (p + data_block_offset h)), s')
               \<and> lowest_clear s (data_block_bitmap_offset h) (inode_block_offset h) (Some p)
               \<and> p < data_block_num_tot h
               \<and> data_bitmap_min_pos s' = max (data_bitmap_min_pos s) p
               \<and> inode_bitmap_min_pos s' = inode_bitmap_min_pos s)"
    using alloc_data_spec[OF inv h] by (cases "data_block_num_free h = 0") auto
  have e: "\<forall>n < inode_num_tot h.
          if bitmap_bit s (inode_bitmap_offset h) n
          then (\<exists>s'. free_inode n s = (Inr (), s')
                 \<and> inode_bitmap_min_pos s' = min (inode_bitmap_min_pos s) n
                 \<and> data_bitmap_min_pos s' = data_bitmap_min_pos s)
          else free_inode n s = (Inl AssertionFail, s)"
  proof (intro allI impI)
    fix n assume n: "n < inode_num_tot h"
    show "if bitmap_bit s (inode_bitmap_offset h) n
          then (\<exists>s'. free_inode n s = (Inr (), s')
                 \<and> inode_bitmap_min_pos s' = min (inode_bitmap_min_pos s) n
                 \<and> data_bitmap_min_pos s' = data_bitmap_min_pos s)
          else free_inode n s = (Inl AssertionFail, s)"
      using free_inode_spec[OF inv h n] by (cases "bitmap_bit s (inode_bitmap_offset h) n") auto
  qed
  have f: "\<forall>bn < data_block_offset h + data_block_num_tot h.
          if data_block_offset h \<le> bn \<and> bitmap_bit s (data_block_bitmap_offset h) (bn - data_block_offset h)
          then (\<exists>s'. free_data bn s = (Inr (), s')
                 \<and> data_bitmap_min_pos s' = min (data_bitmap_min_pos s) (bn - data_block_offset h)
                 \<and> inode_bitmap_min_pos s' = inode_bitmap_min_pos s)
          else free_data bn s = (Inl AssertionFail, s)"
  proof (intro allI impI)
    fix bn assume n: "bn < data_block_offset h + data_block_num_tot h"
    show "if data_block_offset h \<le> bn \<and> bitmap_bit s (data_block_bitmap_offset h) (bn - data_block_offset h)
          then (\<exists>s'. free_data bn s = (Inr (), s')
                 \<and> data_bitmap_min_pos s' = min (data_bitmap_min_pos s) (bn - data_block_offset h)
                 \<and> inode_bitmap_min_pos s' = inode_bitmap_min_pos s)
          else free_data bn s = (Inl AssertionFail, s)"
      using free_data_spec[OF inv h n]
      by (cases "data_block_offset h \<le> bn \<and> bitmap_bit s (data_block_bitmap_offset h) (bn - data_block_offset h)") auto
  qed
  show ?thesis
    apply (rule exI[of _ h])
    apply (intro conjI)
    apply (rule h a c d e f)+
    done
qed
section \<open>Writes of length 0\<close>

section \<open>The order of bitmap and pointer writes\<close>

section \<open>Scenarios on the lab device\<close>

lemma scenario_S2_run:
  "fst (scenario_S2 (lab_device itab raw t)) = Inr ((1, [0x5A]), (1, [raw 517 0]))"
  by (simp add: scenario_S2_def [THEN fun_cong] exec cong: bindM_block fs_freeze_log)

lemma scenario_unaligned_run:
  "fst (scenario_unaligned (lab_device itab raw t)) = Inl OutOfBounds"
  by (simp add: scenario_unaligned_def [THEN fun_cong] exec cong: bindM_block fs_freeze_log)

lemma scenario_read_past_end_run:
  "fst (scenario_read_past_end (lab_device itab raw t)) = Inl AssertionFail"
  by (simp add: scenario_read_past_end_def [THEN fun_cong] exec cong: bindM_block fs_freeze_log)

text \<open>
  C7, as amended. Scenario S2 on a freshly formatted device: the byte written at offset
  \<open>4096 * 12\<close> is read back as Z; the byte read at offset 0 is the byte that block 517
  of the device (the block that grow allocated for logical block 0) held before the
  format. Grow does not clear the data blocks it allocates, so the byte is NUL only where
  the device held NUL.
\<close>

theorem S2_reads_what_the_device_held:
  "fst (scenario_S2 (lab_device itab raw t)) = Inr ((1, [0x5A]), (1, [raw 517 0]))"
  by (rule scenario_S2_run)

theorem S2_reads_zero_counterexample:
  "fst (scenario_S2 used_device) \<noteq> Inr ((1, [0x5A]), (1, [0]))"
  by (simp add: used_device_def scenario_S2_run)

text \<open>
  C1. The loops of read and write copy \<open>min(size, BLOCK_SIZE)\<close> bytes per iteration, not
  \<open>min(size, BLOCK_SIZE - offset_in_block)\<close>: two bytes written at offset 4095 of a
  two-block file are copied in one iteration that runs one byte past the block buffer.
\<close>

theorem unaligned_write_overruns_block:
  "bytes_to_read 2 = 2 \<and> min 2 (BLOCK_SIZE - 4095 mod BLOCK_SIZE) = (1 :: nat)
   \<and> fst (scenario_unaligned used_device) = Inl OutOfBounds"
  by (simp add: used_device_def scenario_unaligned_run bytes_to_read_def BLOCK_SIZE_def)

text \<open>
  C2. A read at an offset beyond the end of the file does not return 0: the clamped size
  wraps around in \<open>size_t\<close>, the loop runs and \<open>get_data_block\<close> fails its assertion.
\<close>

theorem read_past_end_aborts:
  "fst (scenario_read_past_end used_device) = Inl AssertionFail"
  by (simp add: used_device_def scenario_read_past_end_run)

section \<open>The allocator on the lab device\<close>

lemma free_past_end_run:
  "fst (scenario_free_past_end (lab_device itab raw t)) = Inr ()"
  by (simp add: scenario_free_past_end_def [THEN fun_cong] exec cong: bindM_block fs_freeze_log)

lemma free_past_end_view:
  "allocator_view (snd (scenario_free_past_end (lab_device itab raw t))) =
     (Header \<lparr> MAGIC_NUMBER = 0x19260817, inode_num_tot = 65408, inode_num_free = 65408,
       inode_bitmap_offset = 1, inode_block_offset = 5, data_block_num_tot = 65020,
       data_block_num_free = 65019, data_block_bitmap_offset = 3, data_block_offset = 516 \<rparr>,
      0, 0, True, False)"
  by (simp add: scenario_free_past_end_def [THEN fun_cong] exec allocator_view_def bitmap_bit_def
        cong: bindM_block fs_freeze_log)

lemma stale_hint_run:
  "fst (scenario_stale_hint (lab_device itab raw t)) = Inr (64, Some 65, Some 0, Some 581)"
  by (simp add: scenario_stale_hint_def [THEN fun_cong] exec cong: bindM_block fs_freeze_log)

lemma after_65_view:
  "allocator_view after_65_blocks =
     (Header \<lparr> MAGIC_NUMBER = 0x19260817, inode_num_tot = 65408, inode_num_free = 65407,
       inode_bitmap_offset = 1, inode_block_offset = 5, data_block_num_tot = 65020,
       data_block_num_free = 64955, data_block_bitmap_offset = 3, data_block_offset = 516 \<rparr>,
      0, 64, True, True)"
  by (simp add: after_65_blocks_def used_device_def exec allocator_view_def bitmap_bit_def
        cong: bindM_block fs_freeze_log)

lemma after_65_hinted_scan:
  "fst (BitMap_get_first_zero \<lparr> minpos = 64, start = 3, end' = 5 \<rparr> after_65_blocks) = Inr (Some 65)"
  by (simp add: after_65_blocks_def used_device_def exec cong: bindM_block fs_freeze_log)

theorem free_past_end_breaks_counts:
  "fst (scenario_free_past_end used_device) = Inr ()
   \<and> disk (snd (scenario_free_past_end used_device)) 0 =
       Header \<lparr> MAGIC_NUMBER = 0x19260817, inode_num_tot = 65408, inode_num_free = 65408,
         inode_bitmap_offset = 1, inode_block_offset = 5, data_block_num_tot = 65020,
         data_block_num_free = 65019, data_block_bitmap_offset = 3, data_block_offset = 516 \<rparr>
   \<and> bitmap_bit (snd (scenario_free_past_end used_device)) 1 0
   \<and> clear_bits (snd (scenario_free_past_end used_device)) 1 65408 < 65408"
proof -
  let ?s = "snd (scenario_free_past_end used_device)"
  have v: "allocator_view ?s =
     (Header \<lparr> MAGIC_NUMBER = 0x19260817, inode_num_tot = 65408, inode_num_free = 65408,
       inode_bitmap_offset = 1, inode_block_offset = 5, data_block_num_tot = 65020,
       data_block_num_free = 65019, data_block_bitmap_offset = 3, data_block_offset = 516 \<rparr>,
      0, 0, True, False)"
    unfolding used_device_def by (rule free_past_end_view)
  then have b: "bitmap_bit ?s 1 0" by (simp add: allocator_view_def)
  have "clear_bits ?s 1 65408 < 65408" by (rule set_bit_lowers_clear_bits[OF b]) simp
  then show ?thesis using v b free_past_end_run[of "\<lambda>_ _. new_inode FILE 0" "\<lambda>_ _. 0xFF" 0]
    by (simp add: allocator_view_def used_device_def)
qed

theorem allocator_counts_witness:
  "reachable_in_range after_65_blocks
   \<and> disk after_65_blocks 0 =
       Header \<lparr> MAGIC_NUMBER = 0x19260817, inode_num_tot = 65408, inode_num_free = 65407,
         inode_bitmap_offset = 1, inode_block_offset = 5, data_block_num_tot = 65020,
         data_block_num_free = 64955, data_block_bitmap_offset = 3, data_block_offset = 516 \<rparr>
   \<and> clear_bits after_65_blocks 1 65408 = 65407
   \<and> clear_bits after_65_blocks 3 65020 = 64955
   \<and> (\<exists>s' h'. free_data 520 after_65_blocks = (Inr (), s') \<and> disk s' 0 = Header h'
         \<and> data_block_num_free h' = 64956 \<and> \<not> bitmap_bit s' 3 4)"
proof -
  let ?H = "\<lparr> MAGIC_NUMBER = 0x19260817, inode_num_tot = 65408, inode_num_free = 65407,
         inode_bitmap_offset = 1, inode_block_offset = 5, data_block_num_tot = 65020,
         data_block_num_free = 64955, data_block_bitmap_offset = 3, data_block_offset = 516 \<rparr>"
  have v: "disk after_65_blocks 0 = Header ?H" "bitmap_bit after_65_blocks 3 4"
    using after_65_view by (simp_all add: allocator_view_def)
  from allocator_counts_follow_bitmaps [OF after_65_in_range] v(1)
  have c: "inode_num_free ?H = clear_bits after_65_blocks (inode_bitmap_offset ?H) (inode_num_tot ?H)"
      "data_block_num_free ?H = clear_bits after_65_blocks (data_block_bitmap_offset ?H) (data_block_num_tot ?H)"
    and f: "\<forall>bn < data_block_offset ?H + data_block_num_tot ?H.
          if data_block_offset ?H \<le> bn \<and> bitmap_bit after_65_blocks (data_block_bitmap_offset ?H) (bn - data_block_offset ?H)
          then (\<exists>s' h'. free_data bn after_65_blocks = (Inr (), s') \<and> disk s' 0 = Header h'
                 \<and> bit_and_count after_65_blocks s' (data_block_bitmap_offset ?H) (bn - data_block_offset ?H) False
                      (data_block_num_free ?H) (data_block_num_free h'))
          else free_data bn after_65_blocks = (Inl AssertionFail, after_65_blocks)"
    by auto
  from f[rule_format, of 520] v(2)
  have "\<exists>s' h'. free_data 520 after_65_blocks = (Inr (), s') \<and> disk s' 0 = Header h'
         \<and> data_block_num_free h' = 64956 \<and> \<not> bitmap_bit s' 3 4"
    by (auto simp: bit_and_count_def)
  then show ?thesis using after_65_in_range v(1) c by simp
qed

theorem stale_hint_counterexample:
  "fst (scenario_stale_hint used_device) = Inr (64, Some 65, Some 0, Some 581)"
  unfolding used_device_def by (rule stale_hint_run)

theorem first_zero_ignores_hint_witness:
  "reachable_in_range after_65_blocks
   \<and> data_bitmap_min_pos after_65_blocks = 64
   \<and> fst (BitMap_get_first_zero \<lparr> minpos = 64, start = 3, end' = 5 \<rparr> after_65_blocks) = Inr (Some 65)
   \<and> BitMap_get_first_zero \<lparr> minpos = 64, start = 3, end' = 5 \<rparr> after_65_blocks
       = BitMap_get_first_zero \<lparr> minpos = 0, start = 3, end' = 5 \<rparr> after_65_blocks
   \<and> (\<exists>s'. free_data 520 after_65_blocks = (Inr (), s') \<and> data_bitmap_min_pos s' = 4)"
proof -
  let ?H = "\<lparr> MAGIC_NUMBER = 0x19260817, inode_num_tot = 65408, inode_num_free = 65407,
         inode_bitmap_offset = 1, inode_block_offset = 5, data_block_num_tot = 65020,
         data_block_num_free = 64955, data_block_bitmap_offset = 3, data_block_offset = 516 \<rparr>"
  have v: "disk after_65_blocks 0 = Header ?H" "bitmap_bit after_65_blocks 3 4"
      "data_bitmap_min_pos after_65_blocks = 64"
    using after_65_view by (simp_all add: allocator_view_def)
  from first_zero_ignores_hint [OF after_65_in_range] v(1)
  have a: "\<exists>r. BitMap_get_first_zero \<lparr> minpos = data_bitmap_min_pos after_65_blocks,
                   start = data_block_bitmap_offset ?H, end' = inode_block_offset ?H \<rparr> after_65_blocks
               = (Inr r, after_65_blocks)
          \<and> BitMap_get_first_zero \<lparr> minpos = 0, start = data_block_bitmap_offset ?H,
                   end' = inode_block_offset ?H \<rparr> after_65_blocks = (Inr r, after_65_blocks)"
    and f: "\<forall>bn < data_block_offset ?H + data_block_num_tot ?H.
          if data_block_offset ?H \<le> bn \<and> bitmap_bit after_65_blocks (data_block_bitmap_offset ?H) (bn - data_block_offset ?H)
          then (\<exists>s'. free_data bn after_65_blocks = (Inr (), s')
                 \<and> data_bitmap_min_pos s' = min (data_bitmap_min_pos after_65_blocks) (bn - data_block_offset ?H)
                 \<and> inode_bitmap_min_pos s' = inode_bitmap_min_pos after_65_blocks)
          else free_data bn after_65_blocks = (Inl AssertionFail, after_65_blocks)"
    by auto
  from a v(3) have e: "BitMap_get_first_zero \<lparr> minpos = 64, start = 3, end' = 5 \<rparr> after_65_blocks
       = BitMap_get_first_zero \<lparr> minpos = 0, start = 3, end' = 5 \<rparr> after_65_blocks"
    by auto
  from f[rule_format, of 520] v(2,3)
  have "\<exists>s'. free_data 520 after_65_blocks = (Inr (), s') \<and> data_bitmap_min_pos s' = 4"
    by auto
  then show ?thesis using after_65_in_range v(3) e after_65_hinted_scan by simp
qed
section \<open>Writes of length 0 on the lab device and on a full device\<close>







section \<open>The writes of a shrink on the lab device\<close>






end
